theory Spec2Isabelle
  imports Complex_Main "HOL-Library.Word"
begin

unbundle bit_operations_syntax

section \<open>JavaScript values\<close>

text \<open>
  A JavaScript \<open>number\<close> that holds a finite value is a \<^typ>\<open>real\<close> here (floating point
  rounding is idealised away). Array indices are integers. A read that the source would
  answer with \<open>undefined\<close> is \<open>None\<close>; a property access on \<open>undefined\<close> throws a
  \<open>TypeError\<close>, which is the only exception the modelled code can raise. Where arithmetic
  on \<open>undefined\<close> yields \<open>NaN\<close>, the number is a \<open>jsnum\<close>.
\<close>

datatype error = TypeError

datatype jsnum = NaN | Num real

definition bindE :: "error + 'a \<Rightarrow> ('a \<Rightarrow> error + 'b) \<Rightarrow> error + 'b" where
  "bindE m f = (case m of Inl e \<Rightarrow> Inl e | Inr a \<Rightarrow> f a)"

text \<open>\<open>xs.map(f)\<close> where \<open>f\<close> may throw: the first exception ends the whole map.\<close>

fun mapE :: "('a \<Rightarrow> error + 'b) \<Rightarrow> 'a list \<Rightarrow> error + 'b list" where
  "mapE f [] = Inr []"
| "mapE f (a # as) = bindE (f a) (\<lambda>b. bindE (mapE f as) (\<lambda>bs. Inr (b # bs)))"

text \<open>A \<open>for\<close> loop over a fixed sequence that updates loop variables and may throw.\<close>

fun foldE :: "('a \<Rightarrow> 's \<Rightarrow> error + 's) \<Rightarrow> 'a list \<Rightarrow> 's \<Rightarrow> error + 's" where
  "foldE f [] s = Inr s"
| "foldE f (a # as) s = bindE (f a s) (foldE f as)"

text \<open>\<open>xs[k]\<close>: \<open>undefined\<close> outside the array, and for \<open>k = NaN\<close> (here \<open>None\<close>).\<close>

definition elemAt :: "'a list \<Rightarrow> int option \<Rightarrow> 'a option" where
  "elemAt xs k = (case k of None \<Rightarrow> None
      | Some i \<Rightarrow> if 0 \<le> i \<and> i < int (length xs) then Some (xs ! nat i) else None)"

text \<open>\<open>g[ny][nx]\<close>: throws when \<open>g[ny]\<close> is \<open>undefined\<close>, else the cell or \<open>undefined\<close>.\<close>

definition elemAt2 :: "'a list list \<Rightarrow> int option \<Rightarrow> int option \<Rightarrow> error + 'a option" where
  "elemAt2 g ny nx = (case elemAt g ny of None \<Rightarrow> Inl TypeError | Some row \<Rightarrow> Inr (elemAt row nx))"

text \<open>\<open>a % b\<close> on integers: the sign follows the dividend, and \<open>a % 0\<close> is \<open>NaN\<close>.\<close>

definition jsRem :: "int \<Rightarrow> int \<Rightarrow> int option" where
  "jsRem a b = (if b = 0 then None else Some (sgn a * (\<bar>a\<bar> mod \<bar>b\<bar>)))"

text \<open>The index pairs \<open>(i, j)\<close> the two nested neighbour loops visit, in their order.\<close>

definition neighborOffsets :: "(int \<times> int) list" where
  "neighborOffsets =
     concat (map (\<lambda>i. concat (map (\<lambda>j. if i = 0 \<and> j = 0 then [] else [(i, j)]) [-1, 0, 1]))
       [-1, 0, 1])"

section \<open>types.ts\<close>

record Complex_rec =
  re :: real
  im :: real

type_synonym QubitState = "Complex_rec \<times> Complex_rec"

type_synonym GridState = "QubitState list list"

type_synonym ClassicalGridState = "int list list"

record PauliCoefficients =
  cI :: Complex_rec
  cX :: Complex_rec
  cY :: Complex_rec
  cZ :: Complex_rec

record SimulationParameters =
  gamma :: real
  w_self :: PauliCoefficients
  w_neighbor :: PauliCoefficients

record SearchProgress =
  generation :: nat
  bestFitness :: real

section \<open>simulation.ts\<close>

text \<open>A matrix is the pair of its two rows; every matrix of the program has two rows.\<close>

type_synonym Matrix = "(Complex_rec \<times> Complex_rec) \<times> (Complex_rec \<times> Complex_rec)"

definition cadd :: "Complex_rec \<Rightarrow> Complex_rec \<Rightarrow> Complex_rec" where
  "cadd a b = \<lparr>re = re a + re b, im = im a + im b\<rparr>"

definition cmul :: "Complex_rec \<Rightarrow> Complex_rec \<Rightarrow> Complex_rec" where
  "cmul a b = \<lparr>re = re a * re b - im a * im b, im = re a * im b + im a * re b\<rparr>"

definition applyMatrix :: "Matrix \<Rightarrow> QubitState \<Rightarrow> QubitState" where
  "applyMatrix mat q = (case q of (a, b) \<Rightarrow>
     (cadd (cmul (fst (fst mat)) a) (cmul (snd (fst mat)) b),
      cadd (cmul (fst (snd mat)) a) (cmul (snd (snd mat)) b)))"

definition normalizeQubit :: "QubitState \<Rightarrow> QubitState" where
  "normalizeQubit q = (case q of (alpha, beta) \<Rightarrow>
     let magSq = re alpha * re alpha + im alpha * im alpha
               + re beta * re beta + im beta * im beta
     in if magSq < 1 / 10 ^ 12 then (\<lparr>re = 1, im = 0\<rparr>, \<lparr>re = 0, im = 0\<rparr>)
        else let mag = sqrt magSq
             in (\<lparr>re = re alpha / mag, im = im alpha / mag\<rparr>,
                 \<lparr>re = re beta / mag, im = im beta / mag\<rparr>))"

definition pauliI :: Matrix where
  "pauliI = ((\<lparr>re = 1, im = 0\<rparr>, \<lparr>re = 0, im = 0\<rparr>), (\<lparr>re = 0, im = 0\<rparr>, \<lparr>re = 1, im = 0\<rparr>))"

definition pauliX :: Matrix where
  "pauliX = ((\<lparr>re = 0, im = 0\<rparr>, \<lparr>re = 1, im = 0\<rparr>), (\<lparr>re = 1, im = 0\<rparr>, \<lparr>re = 0, im = 0\<rparr>))"

definition pauliY :: Matrix where
  "pauliY = ((\<lparr>re = 0, im = 0\<rparr>, \<lparr>re = 0, im = -1\<rparr>), (\<lparr>re = 0, im = 1\<rparr>, \<lparr>re = 0, im = 0\<rparr>))"

definition pauliZ :: Matrix where
  "pauliZ = ((\<lparr>re = 1, im = 0\<rparr>, \<lparr>re = 0, im = 0\<rparr>), (\<lparr>re = 0, im = 0\<rparr>, \<lparr>re = -1, im = 0\<rparr>))"

definition scaleMatrix :: "Matrix \<Rightarrow> Complex_rec \<Rightarrow> Matrix" where
  "scaleMatrix mat s = (case mat of ((a, b), (c, d)) \<Rightarrow>
     ((cmul a s, cmul b s), (cmul c s, cmul d s)))"

definition addMatrices :: "Matrix \<Rightarrow> Matrix \<Rightarrow> Matrix" where
  "addMatrices mat1 mat2 = (case mat1 of ((a, b), (c, d)) \<Rightarrow>
     ((cadd a (fst (fst mat2)), cadd b (snd (fst mat2))),
      (cadd c (fst (snd mat2)), cadd d (snd (snd mat2)))))"

definition constructMatrix :: "PauliCoefficients \<Rightarrow> Matrix" where
  "constructMatrix coeffs =
     (let m = scaleMatrix pauliI (cI coeffs);
          m = addMatrices m (scaleMatrix pauliX (cX coeffs));
          m = addMatrices m (scaleMatrix pauliY (cY coeffs));
          m = addMatrices m (scaleMatrix pauliZ (cZ coeffs))
      in m)"

definition getClassicalState :: "QubitState \<Rightarrow> int" where
  "getClassicalState q =
     (let prob1 = re (snd q) * re (snd q) + im (snd q) * im (snd q)
      in if prob1 \<ge> 1 / 2 then 1 else 0)"

text \<open>
  Stage A of \<open>performQuantumStep\<close> for the cell \<open>qubit\<close> at row \<open>y\<close>, column \<open>x\<close>. The
  neighbour \<open>currentGrid[ny][nx]\<close> is destructured at once (\<open>neighborQubit[0]\<close>), so an
  \<open>undefined\<close> neighbour throws.
\<close>

definition sumNeighborStep ::
  "GridState \<Rightarrow> int \<Rightarrow> int \<Rightarrow> nat \<Rightarrow> nat \<Rightarrow> int \<times> int \<Rightarrow> QubitState \<Rightarrow> error + QubitState" where
  "sumNeighborStep currentGrid gridHeight gridWidth y x ij sumNeighborState =
     (case ij of (i, j) \<Rightarrow>
        let ny = jsRem (int y + i + gridHeight) gridHeight;
            nx = jsRem (int x + j + gridWidth) gridWidth
        in bindE (elemAt2 currentGrid ny nx) (\<lambda>cell.
             case cell of None \<Rightarrow> Inl TypeError
             | Some neighborQubit \<Rightarrow>
                 Inr (cadd (fst sumNeighborState) (fst neighborQubit),
                      cadd (snd sumNeighborState) (snd neighborQubit))))"

definition coherentCell ::
  "GridState \<Rightarrow> int \<Rightarrow> int \<Rightarrow> Matrix \<Rightarrow> Matrix \<Rightarrow> nat \<Rightarrow> nat \<Rightarrow> QubitState \<Rightarrow> error + QubitState" where
  "coherentCell currentGrid gridHeight gridWidth W_self W_neighbor y x qubit =
     bindE (foldE (sumNeighborStep currentGrid gridHeight gridWidth y x) neighborOffsets
              (\<lparr>re = 0, im = 0\<rparr>, \<lparr>re = 0, im = 0\<rparr>))
       (\<lambda>sumNeighborState.
          let selfTerm = applyMatrix W_self qubit;
              neighborTerm = applyMatrix W_neighbor sumNeighborState;
              nextStateVector = (cadd (fst selfTerm) (fst neighborTerm),
                                 cadd (snd selfTerm) (snd neighborTerm))
          in Inr (normalizeQubit nextStateVector))"

text \<open>Stage B for one cell: local decoherence and thresholding.\<close>

definition decohereCell :: "SimulationParameters \<Rightarrow> QubitState \<Rightarrow> QubitState" where
  "decohereCell params qubit =
     (let pQuantum = re (snd qubit) * re (snd qubit) + im (snd qubit) * im (snd qubit);
          classicalAttractor = (if pQuantum \<ge> 1 / 2 then 1 else 0);
          pFinal = (1 - gamma params) * pQuantum + gamma params * classicalAttractor;
          prob = max 0 (min 1 pFinal)
      in (\<lparr>re = sqrt (1 - prob), im = 0\<rparr>, \<lparr>re = sqrt prob, im = 0\<rparr>))"

definition performQuantumStep :: "GridState \<Rightarrow> SimulationParameters \<Rightarrow> error + GridState" where
  "performQuantumStep currentGrid params =
     (if currentGrid = [] then Inl TypeError
      else
         let gridHeight = int (length currentGrid);
             gridWidth = int (length (hd currentGrid));
             W_self = constructMatrix (w_self params);
             W_neighbor = constructMatrix (w_neighbor params)
         in bindE
              (mapE (\<lambda>(y, row).
                  mapE (\<lambda>(x, qubit).
                      coherentCell currentGrid gridHeight gridWidth W_self W_neighbor y x qubit)
                    (enumerate 0 row))
                (enumerate 0 currentGrid))
              (\<lambda>coherentlyEvolvedGrid.
                 Inr (map (\<lambda>row. map (decohereCell params) row) coherentlyEvolvedGrid)))"

text \<open>
  One cell of \<open>performGOLStep\<close>. A neighbour outside its row reads as \<open>undefined\<close> and
  turns \<open>neighborCount\<close> into \<open>NaN\<close> (\<open>None\<close>), which equals neither 2 nor 3.
\<close>

definition neighborCountStep ::
  "ClassicalGridState \<Rightarrow> int \<Rightarrow> int \<Rightarrow> nat \<Rightarrow> nat \<Rightarrow> int \<times> int \<Rightarrow> int option \<Rightarrow> error + int option" where
  "neighborCountStep grid gridHeight gridWidth y x ij neighborCount =
     (case ij of (i, j) \<Rightarrow>
        let ny = jsRem (int y + i + gridHeight) gridHeight;
            nx = jsRem (int x + j + gridWidth) gridWidth
        in bindE (elemAt2 grid ny nx) (\<lambda>v.
             Inr (case (neighborCount, v) of (Some n, Some c) \<Rightarrow> Some (n + c) | _ \<Rightarrow> None)))"

definition golCell :: "ClassicalGridState \<Rightarrow> int \<Rightarrow> int \<Rightarrow> nat \<Rightarrow> nat \<Rightarrow> error + int" where
  "golCell grid gridHeight gridWidth y x =
     bindE (foldE (neighborCountStep grid gridHeight gridWidth y x) neighborOffsets (Some 0))
       (\<lambda>neighborCount.
          bindE (elemAt2 grid (Some (int y)) (Some (int x))) (\<lambda>cell.
            if cell = Some 1 \<and> (neighborCount = Some 2 \<or> neighborCount = Some 3) then Inr 1
            else if cell = Some 0 \<and> neighborCount = Some 3 then Inr 1
            else Inr 0))"

definition performGOLStep :: "ClassicalGridState \<Rightarrow> error + ClassicalGridState" where
  "performGOLStep grid =
     (if grid = [] then Inl TypeError
      else
         let gridHeight = length grid;
             gridWidth = length (hd grid)
         in mapE (\<lambda>y. mapE (\<lambda>x. golCell grid (int gridHeight) (int gridWidth) y x) [0..<gridWidth])
              [0..<gridHeight])"

section \<open>constants.ts\<close>

definition ZERO_C :: Complex_rec where
  "ZERO_C = \<lparr>re = 0, im = 0\<rparr>"

definition ONE_C :: Complex_rec where
  "ONE_C = \<lparr>re = 1, im = 0\<rparr>"

definition DEFAULT_PARAMETERS :: SimulationParameters where
  "DEFAULT_PARAMETERS =
     \<lparr>gamma = 1,
      w_self = \<lparr>cI = ONE_C, cX = ZERO_C, cY = ZERO_C, cZ = ZERO_C\<rparr>,
      w_neighbor = \<lparr>cI = ZERO_C, cX = ZERO_C, cY = ZERO_C, cZ = ZERO_C\<rparr>\<rparr>"

section \<open>useReversibleLife.ts\<close>

text \<open>
  The hook keeps the two registers as state. \<open>computePreview\<close>, \<open>targetPopulation\<close> and
  \<open>isTargetClean\<close> are memoized functions of that state; a state setter replaces a
  register. \<open>advanceCycle\<close> is modelled as a function from the registers at the call to
  its return value and the registers after it.
\<close>

record Registers =
  systemGrid :: ClassicalGridState
  targetGrid :: ClassicalGridState

definition GRID_SIZE :: nat where
  "GRID_SIZE = 32"

definition createGrid :: "int \<Rightarrow> ClassicalGridState" where
  "createGrid fill = replicate GRID_SIZE (replicate GRID_SIZE fill)"

definition cloneGrid :: "ClassicalGridState \<Rightarrow> ClassicalGridState" where
  "cloneGrid grid = map (\<lambda>row. row) grid"

definition computePreview :: "Registers \<Rightarrow> error + ClassicalGridState" where
  "computePreview s = performGOLStep (systemGrid s)"

definition targetPopulation :: "Registers \<Rightarrow> int" where
  "targetPopulation s =
     foldl (\<lambda>acc row. acc + foldl (\<lambda>sum cell. sum + cell) 0 row) 0 (targetGrid s)"

definition isTargetClean :: "Registers \<Rightarrow> bool" where
  "isTargetClean s = (targetPopulation s = 0)"

text \<open>
  \<open>a ^ b\<close> on integer-valued numbers: both sides are taken to 32-bit integers, and
  \<open>undefined\<close> to 0.
\<close>

definition jsXor :: "int \<Rightarrow> int option \<Rightarrow> int" where
  "jsXor a b =
     sint ((word_of_int a :: 32 word) XOR word_of_int (case b of None \<Rightarrow> 0 | Some v \<Rightarrow> v))"

definition xorUpdate :: "ClassicalGridState \<Rightarrow> ClassicalGridState \<Rightarrow> error + ClassicalGridState" where
  "xorUpdate target update =
     mapE (\<lambda>(y, row).
         mapE (\<lambda>(x, v). bindE (elemAt2 update (Some (int y)) (Some (int x)))
                 (\<lambda>u. Inr (jsXor v u)))
           (enumerate 0 row))
       (enumerate 0 target)"

definition advanceCycle :: "Registers \<Rightarrow> error + bool \<times> Registers" where
  "advanceCycle s =
     bindE (computePreview s) (\<lambda>update.
       if \<not> isTargetClean s then Inr (False, s)
       else bindE (xorUpdate (targetGrid s) update) (\<lambda>newTarget.
              let newSystem = cloneGrid newTarget;
                  oldSystem = cloneGrid (systemGrid s)
              in Inr (True, \<lparr>systemGrid = newSystem, targetGrid = oldSystem\<rparr>)))"

section \<open>useRuleSearch.ts\<close>

text \<open>
  The two loops of \<open>createQubitGridFromClassical\<close> write each cell of the fresh grid at
  most once, so the grid is tabulated cell by cell. \<open>classical[y]\<close> exists for every
  \<open>y\<close> below the height; a cell missing from a short row is \<open>undefined\<close> and not 1.
\<close>

definition createQubitGridFromClassical :: "ClassicalGridState \<Rightarrow> GridState" where
  "createQubitGridFromClassical classical =
     (if classical = [] \<or> hd classical = [] then []
      else let height = length classical;
               width = length (hd classical)
           in map (\<lambda>y. map (\<lambda>x.
                    if elemAt (classical ! y) (Some (int x)) = Some 1
                    then (\<lparr>re = 0, im = 0\<rparr>, \<lparr>re = 1, im = 0\<rparr>)
                    else (\<lparr>re = 1, im = 0\<rparr>, \<lparr>re = 0, im = 0\<rparr>)) [0..<width]) [0..<height])"

text \<open>The genetic search: its constants, the fitness evaluator and one generation.\<close>

definition POPULATION_SIZE :: nat where
  "POPULATION_SIZE = 50"

definition MUTATION_RATE :: real where
  "MUTATION_RATE = 1 / 10"

definition MUTATION_AMOUNT :: real where
  "MUTATION_AMOUNT = 1 / 10"

definition CROSSOVER_RATE :: real where
  "CROSSOVER_RATE = 7 / 10"

definition ELITISM_COUNT :: nat where
  "ELITISM_COUNT = 2"

definition FITNESS_SIM_STEPS :: nat where
  "FITNESS_SIM_STEPS = 15"

definition FITNESS_GRID_SIZE :: nat where
  "FITNESS_GRID_SIZE = 32"

definition POPULATION_PENALTY_WEIGHT :: real where
  "POPULATION_PENALTY_WEIGHT = 3 / 2"

definition DYNAMISM_ERROR_WEIGHT :: real where
  "DYNAMISM_ERROR_WEIGHT = 1"

definition DYNAMISM_BONUS_MULTIPLIER :: real where
  "DYNAMISM_BONUS_MULTIPLIER = 3 / 2"

definition STAGNATION_CHECK_LENGTH :: nat where
  "STAGNATION_CHECK_LENGTH = 4"

definition SELECTION_NOISE_PROBABILITY :: real where
  "SELECTION_NOISE_PROBABILITY = 1 / 10"

record TrajectoryStep =
  grid :: ClassicalGridState
  population :: int
  flipsSincePrevStep :: int

text \<open>
  Arithmetic on numbers that may be \<open>NaN\<close>. \<open>undefined\<close> converts to \<open>NaN\<close>, \<open>NaN\<close>
  propagates, and every comparison with \<open>NaN\<close> is false. The program divides once, by
  \<open>1 + totalError\<close>, which is at least 1 (lemma \<open>fitnessStep_nonneg\<close> and what follows
  it); a quotient by 0, an infinity in JavaScript, is outside \<open>jsnum\<close> and set to \<open>NaN\<close>.
\<close>

definition toNumber :: "int option \<Rightarrow> jsnum" where
  "toNumber v = (case v of None \<Rightarrow> NaN | Some n \<Rightarrow> Num (of_int n))"

fun jsAdd :: "jsnum \<Rightarrow> jsnum \<Rightarrow> jsnum" where
  "jsAdd (Num a) (Num b) = Num (a + b)"
| "jsAdd _ _ = NaN"

fun jsSub :: "jsnum \<Rightarrow> jsnum \<Rightarrow> jsnum" where
  "jsSub (Num a) (Num b) = Num (a - b)"
| "jsSub _ _ = NaN"

fun jsMul :: "jsnum \<Rightarrow> jsnum \<Rightarrow> jsnum" where
  "jsMul (Num a) (Num b) = Num (a * b)"
| "jsMul _ _ = NaN"

fun jsDiv :: "jsnum \<Rightarrow> jsnum \<Rightarrow> jsnum" where
  "jsDiv (Num a) (Num b) = (if b = 0 then NaN else Num (a / b))"
| "jsDiv _ _ = NaN"

fun jsAbs :: "jsnum \<Rightarrow> jsnum" where
  "jsAbs (Num a) = Num \<bar>a\<bar>"
| "jsAbs NaN = NaN"

fun jsGreater :: "jsnum \<Rightarrow> jsnum \<Rightarrow> bool" where
  "jsGreater (Num a) (Num b) = (a > b)"
| "jsGreater _ _ = False"

text \<open>
  The body of the two inner loops of \<open>calculateFitness\<close> at the cell \<open>(y, x)\<close>, on the
  loop variables \<open>mismatchError\<close>, \<open>candidatePopulation\<close> and \<open>candidateFlips\<close>.
  \<open>groundTruthStep\<close> is \<open>undefined\<close> (\<open>None\<close>) beyond the end of the trajectory.
\<close>

definition fitnessCell ::
  "ClassicalGridState \<Rightarrow> TrajectoryStep option \<Rightarrow> ClassicalGridState \<Rightarrow> nat \<Rightarrow> nat \<Rightarrow>
   jsnum \<times> jsnum \<times> int \<Rightarrow> error + jsnum \<times> jsnum \<times> int" where
  "fitnessCell candidateClassicalGrid groundTruthStep prevClassicalGrid y x acc =
     (case acc of (mismatchError, candidatePopulation, candidateFlips) \<Rightarrow>
        bindE (elemAt2 candidateClassicalGrid (Some (int y)) (Some (int x))) (\<lambda>cellState.
        bindE (case groundTruthStep of None \<Rightarrow> Inl TypeError
               | Some truth \<Rightarrow> elemAt2 (grid truth) (Some (int y)) (Some (int x))) (\<lambda>truthCell.
        bindE (elemAt2 prevClassicalGrid (Some (int y)) (Some (int x))) (\<lambda>prevCell.
          Inr (jsAdd mismatchError (jsAbs (jsSub (toNumber cellState) (toNumber truthCell))),
               jsAdd candidatePopulation (toNumber cellState),
               if cellState \<noteq> prevCell then candidateFlips + 1 else candidateFlips)))))"

text \<open>
  The body of the loop over \<open>step\<close>, on \<open>quantumGrid\<close>, \<open>prevClassicalGrid\<close>,
  \<open>mismatchError\<close>, \<open>populationError\<close>, \<open>dynamismError\<close> and
  \<open>candidateDynamismHistory\<close>.
\<close>

definition fitnessStep ::
  "SimulationParameters \<Rightarrow> TrajectoryStep list \<Rightarrow> nat \<Rightarrow>
   GridState \<times> ClassicalGridState \<times> jsnum \<times> jsnum \<times> real \<times> int list \<Rightarrow>
   error + GridState \<times> ClassicalGridState \<times> jsnum \<times> jsnum \<times> real \<times> int list" where
  "fitnessStep params trajectory step st =
     (case st of (quantumGrid, prevClassicalGrid, mismatchError, populationError, dynamismError,
                  candidateDynamismHistory) \<Rightarrow>
        bindE (performQuantumStep quantumGrid (params\<lparr>gamma := 1\<rparr>)) (\<lambda>quantumGrid.
          let candidateClassicalGrid = map (\<lambda>row. map getClassicalState row) quantumGrid;
              groundTruthStep = elemAt trajectory (Some (int step + 1))
          in bindE
               (foldE (\<lambda>y. foldE (\<lambda>x. fitnessCell candidateClassicalGrid groundTruthStep
                                      prevClassicalGrid y x) [0..<FITNESS_GRID_SIZE])
                  [0..<FITNESS_GRID_SIZE] (mismatchError, Num 0, 0))
               (\<lambda>(mismatchError, candidatePopulation, candidateFlips).
                  case groundTruthStep of None \<Rightarrow> Inl TypeError
                  | Some truth \<Rightarrow>
                      Inr (quantumGrid, candidateClassicalGrid, mismatchError,
                           jsAdd populationError
                             (jsAbs (jsSub candidatePopulation (Num (of_int (population truth))))),
                           dynamismError + \<bar>of_int (candidateFlips - flipsSincePrevStep truth)\<bar>,
                           candidateDynamismHistory @ [candidateFlips]))))"

definition calculateFitness :: "SimulationParameters \<Rightarrow> TrajectoryStep list \<Rightarrow> error + jsnum" where
  "calculateFitness params trajectory =
     (if trajectory = [] then Inr (Num 0)
      else
        let initialGrid = grid (hd trajectory)
        in bindE
             (foldE (fitnessStep params trajectory) [0..<FITNESS_SIM_STEPS]
                (createQubitGridFromClassical initialGrid, initialGrid, Num 0, Num 0, 0, []))
             (\<lambda>(quantumGrid, prevClassicalGrid, mismatchError, populationError, dynamismError,
                 candidateDynamismHistory).
                let totalError =
                      jsAdd (jsAdd mismatchError (jsMul populationError (Num POPULATION_PENALTY_WEIGHT)))
                        (Num (dynamismError * DYNAMISM_ERROR_WEIGHT));
                    fitness = jsDiv (Num 1) (jsAdd (Num 1) totalError);
                    isStagnant =
                      (length candidateDynamismHistory \<ge> STAGNATION_CHECK_LENGTH \<and>
                       list_all (\<lambda>flips. flips = 0)
                         (drop (length candidateDynamismHistory - STAGNATION_CHECK_LENGTH)
                            candidateDynamismHistory))
                in Inr (if \<not> isStagnant then jsMul fitness (Num DYNAMISM_BONUS_MULTIPLIER)
                        else fitness)))"

text \<open>
  \<open>Math.random()\<close>: the sequence of its results is a parameter, read at a position that
  each call advances. The search draws from it in the order of the source.
\<close>

type_synonym RandomSource = "(nat \<Rightarrow> real) \<times> nat"

definition mathRandom :: "RandomSource \<Rightarrow> real \<times> RandomSource" where
  "mathRandom rs = (fst rs (snd rs), (fst rs, Suc (snd rs)))"

definition randomCoeff :: "RandomSource \<Rightarrow> real \<times> RandomSource" where
  "randomCoeff rs = (case mathRandom rs of (r, rs) \<Rightarrow> ((r - 1 / 2) * (2 / 10), rs))"

definition randomComplex :: "real \<Rightarrow> RandomSource \<Rightarrow> Complex_rec \<times> RandomSource" where
  "randomComplex base rs =
     (case randomCoeff rs of (a, rs) \<Rightarrow>
      case randomCoeff rs of (b, rs) \<Rightarrow> (\<lparr>re = base + a, im = b\<rparr>, rs))"

definition randomCoefficients :: "real \<Rightarrow> RandomSource \<Rightarrow> PauliCoefficients \<times> RandomSource" where
  "randomCoefficients base rs =
     (case randomComplex base rs of (i, rs) \<Rightarrow>
      case randomComplex 0 rs of (x, rs) \<Rightarrow>
      case randomComplex 0 rs of (y, rs) \<Rightarrow>
      case randomComplex 0 rs of (z, rs) \<Rightarrow> (\<lparr>cI = i, cX = x, cY = y, cZ = z\<rparr>, rs))"

definition createRandomCoefficients :: "RandomSource \<Rightarrow> PauliCoefficients \<times> RandomSource" where
  "createRandomCoefficients rs = randomCoefficients 0 rs"

definition createRandomParams :: "RandomSource \<Rightarrow> SimulationParameters \<times> RandomSource" where
  "createRandomParams rs =
     (case randomCoefficients 1 rs of (ws, rs) \<Rightarrow>
      case createRandomCoefficients rs of (wn, rs) \<Rightarrow>
        (\<lparr>gamma = 1, w_self = ws, w_neighbor = wn\<rparr>, rs))"

definition mutatePart :: "real \<Rightarrow> RandomSource \<Rightarrow> real \<times> RandomSource" where
  "mutatePart v rs =
     (case mathRandom rs of (r, rs) \<Rightarrow>
        if r < MUTATION_RATE
        then (case mathRandom rs of (d, rs) \<Rightarrow> (v + (d - 1 / 2) * 2 * MUTATION_AMOUNT, rs))
        else (v, rs))"

definition mutateComplex :: "Complex_rec \<Rightarrow> RandomSource \<Rightarrow> Complex_rec \<times> RandomSource" where
  "mutateComplex c rs =
     (case mutatePart (re c) rs of (a, rs) \<Rightarrow>
      case mutatePart (im c) rs of (b, rs) \<Rightarrow> (\<lparr>re = a, im = b\<rparr>, rs))"

definition mutateCoefficients :: "PauliCoefficients \<Rightarrow> RandomSource \<Rightarrow> PauliCoefficients \<times> RandomSource" where
  "mutateCoefficients coeffs rs =
     (case mutateComplex (cI coeffs) rs of (i, rs) \<Rightarrow>
      case mutateComplex (cX coeffs) rs of (x, rs) \<Rightarrow>
      case mutateComplex (cY coeffs) rs of (y, rs) \<Rightarrow>
      case mutateComplex (cZ coeffs) rs of (z, rs) \<Rightarrow> (\<lparr>cI = i, cX = x, cY = y, cZ = z\<rparr>, rs))"

definition mutate :: "SimulationParameters \<Rightarrow> RandomSource \<Rightarrow> SimulationParameters \<times> RandomSource" where
  "mutate params rs =
     (case mutateCoefficients (w_self params) rs of (ws, rs) \<Rightarrow>
      case mutateCoefficients (w_neighbor params) rs of (wn, rs) \<Rightarrow>
        (\<lparr>gamma = 1, w_self = ws, w_neighbor = wn\<rparr>, rs))"

definition pick :: "'a \<Rightarrow> 'a \<Rightarrow> RandomSource \<Rightarrow> 'a \<times> RandomSource" where
  "pick a b rs = (case mathRandom rs of (r, rs) \<Rightarrow> (if r < 1 / 2 then a else b, rs))"

definition crossoverCoefficients ::
  "PauliCoefficients \<Rightarrow> PauliCoefficients \<Rightarrow> RandomSource \<Rightarrow> PauliCoefficients \<times> RandomSource" where
  "crossoverCoefficients p1 p2 rs =
     (case pick (cI p1) (cI p2) rs of (i, rs) \<Rightarrow>
      case pick (cX p1) (cX p2) rs of (x, rs) \<Rightarrow>
      case pick (cY p1) (cY p2) rs of (y, rs) \<Rightarrow>
      case pick (cZ p1) (cZ p2) rs of (z, rs) \<Rightarrow> (\<lparr>cI = i, cX = x, cY = y, cZ = z\<rparr>, rs))"

definition crossover ::
  "SimulationParameters \<Rightarrow> SimulationParameters \<Rightarrow> RandomSource \<Rightarrow>
   SimulationParameters \<times> RandomSource" where
  "crossover parent1 parent2 rs =
     (case crossoverCoefficients (w_self parent1) (w_self parent2) rs of (ws, rs) \<Rightarrow>
      case crossoverCoefficients (w_neighbor parent1) (w_neighbor parent2) rs of (wn, rs) \<Rightarrow>
        (\<lparr>gamma = 1, w_self = ws, w_neighbor = wn\<rparr>, rs))"

text \<open>
  The state of the hook: its React state (\<open>isSearching\<close>, \<open>searchProgress\<close>,
  \<open>bestParams\<close>) and its refs. The timer handle of \<open>timeoutRef\<close> only schedules the next
  call and is left out. \<open>runGeneration\<close> is a callback of the render that made it, and
  the effect makes and schedules a new one whenever \<open>bestParams\<close> or \<open>searchProgress\<close>
  change, so a call reads both as they are when it runs: the search is a step relation
  on this state. An entry of \<open>fitnessScores\<close> pairs an individual with its fitness.
\<close>

record SearchState =
  isSearching :: bool
  searchProgress :: SearchProgress
  bestParams :: "SimulationParameters option"
  populationRef :: "SimulationParameters list"
  generationRef :: nat
  groundTruthTrajectoryRef :: "TrajectoryStep list"

record FitnessScore =
  params :: SimulationParameters
  fitness :: jsnum

text \<open>
  \<open>fitnessScores.sort((a, b) => b.fitness - a.fitness)\<close>: the sort is stable, and a
  comparator result of \<open>NaN\<close> counts as 0. Insertion from the right end is such a sort.
\<close>

definition compareScores :: "FitnessScore \<Rightarrow> FitnessScore \<Rightarrow> real" where
  "compareScores a b = (case jsSub (fitness b) (fitness a) of NaN \<Rightarrow> 0 | Num d \<Rightarrow> d)"

fun insertScore :: "FitnessScore \<Rightarrow> FitnessScore list \<Rightarrow> FitnessScore list" where
  "insertScore a [] = [a]"
| "insertScore a (b # bs) = (if compareScores a b \<le> 0 then a # b # bs else b # insertScore a bs)"

definition sortScores :: "FitnessScore list \<Rightarrow> FitnessScore list" where
  "sortScores scores = foldr insertScore scores []"

definition selectParent ::
  "FitnessScore list \<Rightarrow> RandomSource \<Rightarrow> error + SimulationParameters \<times> RandomSource" where
  "selectParent fitnessScores rs =
     (case mathRandom rs of (r1, rs) \<Rightarrow>
     (case mathRandom rs of (r2, rs) \<Rightarrow>
        (let contestant1 = elemAt fitnessScores (Some \<lfloor>r1 * real (length fitnessScores)\<rfloor>);
             contestant2 = elemAt fitnessScores (Some \<lfloor>r2 * real (length fitnessScores)\<rfloor>)
         in (case (contestant1, contestant2) of
               (Some c1, Some c2) \<Rightarrow>
                 (case (if jsGreater (fitness c1) (fitness c2) then (c1, c2) else (c2, c1)) of
                    (winner, loser) \<Rightarrow>
                      (case mathRandom rs of (r3, rs) \<Rightarrow>
                         Inr (if r3 < SELECTION_NOISE_PROBABILITY then params loser
                              else params winner, rs)))
             | _ \<Rightarrow> Inl TypeError))))"

text \<open>One round of the \<open>while\<close> loop: two parents, crossover or a copy, mutation.\<close>

definition makeChild ::
  "FitnessScore list \<Rightarrow> RandomSource \<Rightarrow> error + SimulationParameters \<times> RandomSource" where
  "makeChild fitnessScores rs =
     bindE (selectParent fitnessScores rs) (\<lambda>(parent1, rs).
     bindE (selectParent fitnessScores rs) (\<lambda>(parent2, rs).
       case mathRandom rs of (r, rs) \<Rightarrow>
       case (if r < CROSSOVER_RATE then crossover parent1 parent2 rs else (parent1, rs)) of
         (child, rs) \<Rightarrow> Inr (mutate child rs)))"

function fillPopulation ::
  "FitnessScore list \<Rightarrow> SimulationParameters list \<Rightarrow> RandomSource \<Rightarrow>
   error + SimulationParameters list \<times> RandomSource" where
  "fillPopulation fitnessScores newPopulation rs =
     (if length newPopulation < POPULATION_SIZE
      then (case makeChild fitnessScores rs of Inl e \<Rightarrow> Inl e
            | Inr (child, rs') \<Rightarrow> fillPopulation fitnessScores (newPopulation @ [child]) rs')
      else Inr (newPopulation, rs))"
  by pat_completeness auto
termination
  by (relation "measure (\<lambda>(fitnessScores, newPopulation, rs). POPULATION_SIZE - length newPopulation)")
     auto

declare fillPopulation.simps [simp del]

text \<open>
  \<open>runGeneration\<close> in its three parts: scoring the population, recording the best
  individual in the React state, and breeding the next population (elitism, then the
  \<open>while\<close> loop).
\<close>

definition scorePopulation :: "SearchState \<Rightarrow> error + FitnessScore list" where
  "scorePopulation s =
     mapE (\<lambda>p. bindE (calculateFitness p (groundTruthTrajectoryRef s))
                 (\<lambda>f. Inr \<lparr>params = p, fitness = f\<rparr>)) (populationRef s)"

definition recordBest :: "SearchState \<Rightarrow> FitnessScore \<Rightarrow> SearchState" where
  "recordBest s bestIndividual =
     (let currentBestFitness =
            (case bestParams s of None \<Rightarrow> - 1 | Some _ \<Rightarrow> bestFitness (searchProgress s))
      in case fitness bestIndividual of
           NaN \<Rightarrow> s\<lparr>searchProgress := (searchProgress s)\<lparr>generation := generationRef s\<rparr>\<rparr>
         | Num f \<Rightarrow>
             if f > currentBestFitness + 1 / 10 ^ 9
             then s\<lparr>bestParams := Some (params bestIndividual),
                    searchProgress := \<lparr>generation = generationRef s, bestFitness = f\<rparr>\<rparr>
             else s\<lparr>searchProgress := (searchProgress s)\<lparr>generation := generationRef s\<rparr>\<rparr>)"

definition nextPopulation ::
  "FitnessScore list \<Rightarrow> RandomSource \<Rightarrow> error + SimulationParameters list \<times> RandomSource" where
  "nextPopulation fitnessScores rs =
     bindE (mapE (\<lambda>i. case elemAt fitnessScores (Some (int i)) of
                         None \<Rightarrow> Inl TypeError
                       | Some sc \<Rightarrow> Inr (params sc)) [0..<ELITISM_COUNT])
       (\<lambda>newPopulation. fillPopulation fitnessScores newPopulation rs)"

definition runGeneration :: "SearchState \<Rightarrow> RandomSource \<Rightarrow> error + SearchState \<times> RandomSource" where
  "runGeneration s rs =
     (let s = s\<lparr>generationRef := generationRef s + 1\<rparr>
      in bindE (scorePopulation s) (\<lambda>scores.
           let fitnessScores = sortScores scores
           in case fitnessScores of [] \<Rightarrow> Inl TypeError
              | bestIndividual # _ \<Rightarrow>
                  let s = recordBest s bestIndividual
                  in if jsGreater (fitness bestIndividual) (Num (149 / 100))
                     then Inr (s\<lparr>isSearching := False\<rparr>, rs)
                     else bindE (nextPopulation fitnessScores rs)
                            (\<lambda>(newPopulation, rs). Inr (s\<lparr>populationRef := newPopulation\<rparr>, rs))))"

text \<open>
  \<open>createSeededRandom(seed)\<close> returns a generator with a counter that starts at the
  seed; \<open>createSeededRandom seed k\<close> is the result of its call number \<open>k\<close> (from 0).
  \<open>precomputeGroundTruth\<close> draws the initial grid row by row and records it and
  \<open>FITNESS_SIM_STEPS\<close> steps of the Game of Life.
\<close>

definition createSeededRandom :: "nat \<Rightarrow> nat \<Rightarrow> real" where
  "createSeededRandom seed k = (let x = sin (real (seed + k)) * 10000 in x - of_int \<lfloor>x\<rfloor>)"

definition SEED :: nat where
  "SEED = 1337"

definition gridPopulation :: "ClassicalGridState \<Rightarrow> int" where
  "gridPopulation g = foldl (\<lambda>a b. a + b) 0 (concat g)"

definition countFlips :: "ClassicalGridState \<Rightarrow> ClassicalGridState \<Rightarrow> error + int" where
  "countFlips currentGrid prevGrid =
     foldE (\<lambda>y. foldE (\<lambda>x flips.
                bindE (elemAt2 currentGrid (Some (int y)) (Some (int x))) (\<lambda>a.
                bindE (elemAt2 prevGrid (Some (int y)) (Some (int x))) (\<lambda>b.
                  Inr (if a \<noteq> b then flips + 1 else flips))))
              [0..<FITNESS_GRID_SIZE])
       [0..<FITNESS_GRID_SIZE] 0"

definition truthStep ::
  "nat \<Rightarrow> ClassicalGridState \<times> ClassicalGridState \<times> TrajectoryStep list \<Rightarrow>
   error + ClassicalGridState \<times> ClassicalGridState \<times> TrajectoryStep list" where
  "truthStep i st =
     (case st of (currentGrid, prevGrid, trajectory) \<Rightarrow>
        bindE (performGOLStep currentGrid) (\<lambda>currentGrid.
        bindE (countFlips currentGrid prevGrid) (\<lambda>flips.
          Inr (currentGrid, map (\<lambda>row. row) currentGrid,
               trajectory @ [\<lparr>grid = map (\<lambda>row. row) currentGrid,
                               population = gridPopulation currentGrid,
                               flipsSincePrevStep = flips\<rparr>]))))"

definition precomputeGroundTruth :: "error + TrajectoryStep list" where
  "precomputeGroundTruth =
     (let seededRandomForGroundTruth = createSeededRandom SEED;
          initialGrid =
            map (\<lambda>y. map (\<lambda>x. if seededRandomForGroundTruth (y * FITNESS_GRID_SIZE + x) > 6 / 10
                               then 1 else 0) [0..<FITNESS_GRID_SIZE]) [0..<FITNESS_GRID_SIZE];
          trajectory = [\<lparr>grid = map (\<lambda>row. row) initialGrid,
                          population = gridPopulation initialGrid,
                          flipsSincePrevStep = 0\<rparr>]
      in bindE (foldE truthStep [0..<FITNESS_SIM_STEPS]
                  (initialGrid, map (\<lambda>row. row) initialGrid, trajectory))
           (\<lambda>(currentGrid, prevGrid, trajectory). Inr trajectory))"

fun createPopulation :: "nat \<Rightarrow> RandomSource \<Rightarrow> SimulationParameters list \<times> RandomSource" where
  "createPopulation 0 rs = ([], rs)"
| "createPopulation (Suc n) rs =
     (case createRandomParams rs of (p, rs) \<Rightarrow>
      case createPopulation n rs of (ps, rs) \<Rightarrow> (p # ps, rs))"

definition initializeSearch :: "SearchState \<Rightarrow> RandomSource \<Rightarrow> error + SearchState \<times> RandomSource" where
  "initializeSearch s rs =
     bindE precomputeGroundTruth (\<lambda>groundTruth.
       case createPopulation POPULATION_SIZE rs of (population0, rs) \<Rightarrow>
         Inr (s\<lparr>generationRef := 0,
                groundTruthTrajectoryRef := groundTruth,
                populationRef := population0,
                searchProgress := \<lparr>generation = 0, bestFitness = 0\<rparr>,
                bestParams := None\<rparr>, rs))"

text \<open>
  The states of a run of the search: those \<open>initializeSearch\<close> leaves, and those
  completed calls of \<open>runGeneration\<close> lead to from there.
\<close>

inductive searchRun :: "SearchState \<Rightarrow> bool" where
  initialized: "initializeSearch s rs = Inr (s0, rs0) \<Longrightarrow> searchRun s0"
| generation: "searchRun s \<Longrightarrow> runGeneration s rs = Inr (s', rs') \<Longrightarrow> searchRun s'"

section \<open>Vocabulary of the specification\<close>

text \<open>
  The definitions of this section are not code of the program: they state what the
  specification says about it. A grid of height \<open>H\<close> and width \<open>W\<close> has \<open>H\<close> rows of
  \<open>W\<close> cells; \<open>mkGrid\<close> tabulates one from its cells.
\<close>

definition isGrid :: "nat \<Rightarrow> nat \<Rightarrow> 'a list list \<Rightarrow> bool" where
  "isGrid H W g = (length g = H \<and> list_all (\<lambda>row. length row = W) g)"

definition mkGrid :: "nat \<Rightarrow> nat \<Rightarrow> (nat \<Rightarrow> nat \<Rightarrow> 'a) \<Rightarrow> 'a list list" where
  "mkGrid H W f = map (\<lambda>y. map (\<lambda>x. f y x) [0..<W]) [0..<H]"

text \<open>Toroidal adjacency: the coordinate \<open>k\<close> taken modulo the side \<open>n\<close>.\<close>

definition wrapIdx :: "nat \<Rightarrow> int \<Rightarrow> nat" where
  "wrapIdx n k = nat (k mod int n)"

text \<open>Squared norm of a state, and the probability of basis state 1.\<close>

definition sqNorm :: "QubitState \<Rightarrow> real" where
  "sqNorm q = re (fst q) * re (fst q) + im (fst q) * im (fst q)
            + re (snd q) * re (snd q) + im (snd q) * im (snd q)"

definition prob1 :: "QubitState \<Rightarrow> real" where
  "prob1 q = re (snd q) * re (snd q) + im (snd q) * im (snd q)"

text \<open>
  The coherently evolved state of the cell \<open>(y, x)\<close> as the specification words it: the
  self operator on the cell's state plus the neighbour operator on the sum of the eight
  wrapped neighbours, normalized.
\<close>

definition qadd :: "QubitState \<Rightarrow> QubitState \<Rightarrow> QubitState" where
  "qadd s q = (cadd (fst s) (fst q), cadd (snd s) (snd q))"

definition neighborSum :: "GridState \<Rightarrow> nat \<Rightarrow> nat \<Rightarrow> nat \<Rightarrow> nat \<Rightarrow> QubitState" where
  "neighborSum g H W y x =
     fold (\<lambda>(i, j) s. qadd s (g ! wrapIdx H (int y + i) ! wrapIdx W (int x + j)))
       neighborOffsets (\<lparr>re = 0, im = 0\<rparr>, \<lparr>re = 0, im = 0\<rparr>)"

definition evolvedCell ::
  "GridState \<Rightarrow> SimulationParameters \<Rightarrow> nat \<Rightarrow> nat \<Rightarrow> nat \<Rightarrow> nat \<Rightarrow> QubitState" where
  "evolvedCell g prm H W y x =
     normalizeQubit (qadd (applyMatrix (constructMatrix (w_self prm)) (g ! y ! x))
        (applyMatrix (constructMatrix (w_neighbor prm)) (neighborSum g H W y x)))"

text \<open>
  Toroidal translation by \<open>(dy, dx)\<close>: the cell at \<open>(y, x)\<close> moves to
  \<open>(y + dy, x + dx)\<close>, both taken modulo the sides.
\<close>

definition translateGrid :: "int \<Rightarrow> int \<Rightarrow> 'a list list \<Rightarrow> 'a list list" where
  "translateGrid dy dx g =
     (if g = [] then []
      else let H = length g; W = length (hd g)
           in mkGrid H W (\<lambda>y x. g ! wrapIdx H (int y - dy) ! wrapIdx W (int x - dx)))"

text \<open>A classical grid holds 0 and 1 only; a clean register holds 0 only.\<close>

definition binaryGrid :: "ClassicalGridState \<Rightarrow> bool" where
  "binaryGrid g = list_all (list_all (\<lambda>v. v = 0 \<or> v = 1)) g"

definition allZero :: "ClassicalGridState \<Rightarrow> bool" where
  "allZero g = list_all (list_all (\<lambda>v. v = 0)) g"

text \<open>The Game-of-Life rule and the wrapped neighbour count, as the specification words them.\<close>

definition golRule :: "int \<Rightarrow> int \<Rightarrow> int" where
  "golRule cell n = (if (cell = 1 \<and> (n = 2 \<or> n = 3)) \<or> (cell = 0 \<and> n = 3) then 1 else 0)"

definition golCount :: "ClassicalGridState \<Rightarrow> nat \<Rightarrow> nat \<Rightarrow> nat \<Rightarrow> nat \<Rightarrow> int" where
  "golCount g H W y x =
     fold (\<lambda>(i, j) n. n + g ! wrapIdx H (int y + i) ! wrapIdx W (int x + j)) neighborOffsets 0"

text \<open>The round trip of the fitness evaluator: encode as qubits, decode each cell.\<close>

definition roundTrip :: "ClassicalGridState \<Rightarrow> ClassicalGridState" where
  "roundTrip classical = map (\<lambda>row. map getClassicalState row) (createQubitGridFromClassical classical)"

text \<open>
  The grid that is zero except for the blinker \<open>[[1, 1, 1]]\<close> in row \<open>r\<close>, columns
  \<open>c\<close> to \<open>c + 2\<close>. \<open>near n a k\<close> says that \<open>k\<close> is \<open>a\<close> or one of its two neighbours
  on the cycle of length \<open>n\<close>; \<open>cnt3 P n k\<close> counts the positions among \<open>k\<close> and its
  two neighbours where \<open>P\<close> holds.
\<close>

definition blinkerGrid :: "nat \<Rightarrow> nat \<Rightarrow> nat \<Rightarrow> nat \<Rightarrow> ClassicalGridState" where
  "blinkerGrid H W r c = mkGrid H W (\<lambda>y x. if y = r \<and> c \<le> x \<and> x < c + 3 then 1 else 0)"

definition near :: "nat \<Rightarrow> nat \<Rightarrow> nat \<Rightarrow> bool" where
  "near n a k = (k = a \<or> k = wrapIdx n (int a - 1) \<or> k = wrapIdx n (int a + 1))"

definition cnt3 :: "(nat \<Rightarrow> bool) \<Rightarrow> nat \<Rightarrow> nat \<Rightarrow> int" where
  "cnt3 P n k =
     of_bool (P (wrapIdx n (int k - 1))) + of_bool (P k) + of_bool (P (wrapIdx n (int k + 1)))"

text \<open>
  The other phase of that blinker: zero except for column \<open>c + 1\<close> in row \<open>r\<close> and in
  the rows above and below it on the torus.
\<close>

definition verticalBlinkerGrid :: "nat \<Rightarrow> nat \<Rightarrow> nat \<Rightarrow> nat \<Rightarrow> ClassicalGridState" where
  "verticalBlinkerGrid H W r c =
     mkGrid H W (\<lambda>y x. if x = c + 1 \<and>
                           (y = wrapIdx H (int r - 1) \<or> y = r \<or> y = wrapIdx H (int r + 1))
                         then 1 else 0)"

text \<open>
  A ground-truth trajectory as \<open>precomputeGroundTruth\<close> builds it: the initial snapshot
  and one for each simulated step, each with a grid of the fitness grid size.
\<close>

definition wellFormedTrajectory :: "TrajectoryStep list \<Rightarrow> bool" where
  "wellFormedTrajectory trajectory =
     (FITNESS_SIM_STEPS < length trajectory \<and>
      list_all (\<lambda>st. isGrid FITNESS_GRID_SIZE FITNESS_GRID_SIZE (grid st)) trajectory)"

text \<open>
  Invariants of the loops, used in the proofs: the error sums that are numbers are not
  negative; on a well-formed trajectory nothing is \<open>NaN\<close> and the grids keep the fitness
  grid size; a search state that has no best individual reports the best fitness 0, and
  the reported generation is the generation ref. \<open>unitRandom\<close> is the contract of
  \<open>Math.random\<close>, a result in \<open>[0, 1)\<close>. \<open>generations s n s'\<close>: \<open>n\<close> completed
  calls of \<open>runGeneration\<close> lead from \<open>s\<close> to \<open>s'\<close>.
\<close>

fun nonnegJ :: "jsnum \<Rightarrow> bool" where
  "nonnegJ NaN = True"
| "nonnegJ (Num a) = (0 \<le> a)"

definition errorsNonneg ::
  "GridState \<times> ClassicalGridState \<times> jsnum \<times> jsnum \<times> real \<times> int list \<Rightarrow> bool" where
  "errorsNonneg st = (case st of (q, prev, m, pe, de, h) \<Rightarrow> nonnegJ m \<and> nonnegJ pe \<and> 0 \<le> de)"

definition cellsDefined :: "jsnum \<times> jsnum \<times> int \<Rightarrow> bool" where
  "cellsDefined acc = (fst acc \<noteq> NaN \<and> fst (snd acc) \<noteq> NaN)"

definition loopDefined ::
  "GridState \<times> ClassicalGridState \<times> jsnum \<times> jsnum \<times> real \<times> int list \<Rightarrow> bool" where
  "loopDefined st = (case st of (q, prev, m, pe, de, h) \<Rightarrow>
     isGrid FITNESS_GRID_SIZE FITNESS_GRID_SIZE q \<and> isGrid FITNESS_GRID_SIZE FITNESS_GRID_SIZE prev \<and>
     m \<noteq> NaN \<and> pe \<noteq> NaN)"

definition searchInv :: "SearchState \<Rightarrow> bool" where
  "searchInv s = ((bestParams s = None \<longrightarrow> bestFitness (searchProgress s) = 0) \<and>
     generation (searchProgress s) = generationRef s)"

definition unitRandom :: "RandomSource \<Rightarrow> bool" where
  "unitRandom rs = (\<forall>k. 0 \<le> fst rs k \<and> fst rs k < 1)"

inductive generations :: "SearchState \<Rightarrow> nat \<Rightarrow> SearchState \<Rightarrow> bool" where
  none: "generations s 0 s"
| more: "generations s n s' \<Longrightarrow> runGeneration s' rs = Inr (s'', rs') \<Longrightarrow> generations s (Suc n) s''"

section \<open>Properties of the cell kernel\<close>

lemma neighborOffsets_eq:
  "neighborOffsets = [(-1, -1), (-1, 0), (-1, 1), (0, -1), (0, 1), (1, -1), (1, 0), (1, 1)]"
  by (simp add: neighborOffsets_def)

lemma bindE_Inr [simp]: "bindE (Inr a) f = f a"
  by (simp add: bindE_def)

lemma bindE_Inl [simp]: "bindE (Inl e) f = Inl e"
  by (simp add: bindE_def)

lemma mapE_total:
  assumes "\<And>a. a \<in> set as \<Longrightarrow> f a = Inr (h a)"
  shows "mapE f as = Inr (map h as)"
  using assms by (induction as) simp_all

lemma foldE_total:
  assumes "\<And>a s. a \<in> set as \<Longrightarrow> f a s = Inr (h a s)"
  shows "foldE f as s = Inr (fold h as s)"
  using assms by (induction as arbitrary: s) simp_all

lemma map_enumerate_nth:
  "map f (enumerate 0 xs) = map (\<lambda>i. f (i, xs ! i)) [0..<length xs]"
  by (rule nth_equalityI) (simp_all add: nth_enumerate_eq)

lemma isGrid_row: "isGrid H W g \<Longrightarrow> y < H \<Longrightarrow> length (g ! y) = W"
  by (simp add: isGrid_def list_all_length)

lemma isGrid_length: "isGrid H W g \<Longrightarrow> length g = H"
  by (simp add: isGrid_def)

lemma isGrid_mkGrid [simp]: "isGrid H W (mkGrid H W f)"
  by (simp add: isGrid_def mkGrid_def list_all_length)

lemma mkGrid_nth [simp]: "y < H \<Longrightarrow> x < W \<Longrightarrow> mkGrid H W f ! y ! x = f y x"
  by (simp add: mkGrid_def)

lemma isGrid_eq_mkGrid: "isGrid H W g \<Longrightarrow> g = mkGrid H W (\<lambda>y x. g ! y ! x)"
  unfolding mkGrid_def
  by (rule nth_equalityI, simp add: isGrid_def, rule nth_equalityI)
     (simp_all add: isGrid_def list_all_length)

lemma wrapIdx_less [simp]: "0 < n \<Longrightarrow> wrapIdx n k < n"
  by (simp add: wrapIdx_def nat_less_iff)

lemma jsRem_wrap:
  assumes "0 < n" and "0 \<le> a"
  shows "jsRem (a + int n) (int n) = Some (int (wrapIdx n a))"
proof -
  have "0 \<le> a + int n" using assms by simp
  then have "sgn (a + int n) * (\<bar>a + int n\<bar> mod \<bar>int n\<bar>) = (a + int n) mod int n"
    by (cases "a + int n = 0") (simp_all add: sgn_if)
  then show ?thesis using assms by (simp add: jsRem_def wrapIdx_def)
qed

lemma jsRem_neighbor:
  assumes "0 < n" and "k < n" and "i \<in> {-1, 0, 1}"
  shows "jsRem (int k + i + int n) (int n) = Some (int (wrapIdx n (int k + i)))"
proof (cases "0 \<le> int k + i")
  case True
  then show ?thesis using jsRem_wrap[OF assms(1), of "int k + i"] by simp
next
  case False
  with assms(3) have ki: "int k + i = -1" by auto
  have "jsRem (int n - 1) (int n) = Some (int n - 1)"
  proof (cases "n = 1")
    case True
    then show ?thesis by (simp add: jsRem_def)
  next
    case False
    with assms(1) have "0 < int n - 1" by simp
    then show ?thesis by (simp add: jsRem_def sgn_if zmod_minus1)
  qed
  moreover have "(- 1) mod int n = int n - 1"
    by (rule zmod_minus1) (use assms(1) in simp)
  then have "int (wrapIdx n (- 1)) = int n - 1"
    unfolding wrapIdx_def using assms(1) by simp
  ultimately show ?thesis using ki by (simp add: add.commute)
qed

lemma elemAt2_grid:
  assumes "isGrid H W g" and "y < H" and "x < W"
  shows "elemAt2 g (Some (int y)) (Some (int x)) = Inr (Some (g ! y ! x))"
  using assms isGrid_row[OF assms(1,2)] by (simp add: elemAt2_def elemAt_def isGrid_def)

lemma neighborOffsets_range: "(i, j) \<in> set neighborOffsets \<Longrightarrow> i \<in> {-1, 0, 1} \<and> j \<in> {-1, 0, 1}"
  by (auto simp: neighborOffsets_eq)

lemma sumNeighborStep_grid:
  assumes "isGrid H W g" and "y < H" and "x < W" and "ij \<in> set neighborOffsets"
  shows "sumNeighborStep g (int H) (int W) y x ij s
       = Inr ((\<lambda>(i, j) s. qadd s (g ! wrapIdx H (int y + i) ! wrapIdx W (int x + j))) ij s)"
proof -
  obtain i j where ij: "ij = (i, j)" by (cases ij)
  from assms(4) ij have r: "i \<in> {-1, 0, 1}" "j \<in> {-1, 0, 1}"
    using neighborOffsets_range by blast+
  have H: "0 < H" and W: "0 < W" using assms by auto
  show ?thesis
    unfolding ij sumNeighborStep_def
    by (simp add: jsRem_neighbor[OF H assms(2) r(1)] jsRem_neighbor[OF W assms(3) r(2)]
        elemAt2_grid[OF assms(1)] H W qadd_def)
qed

lemma coherentCell_grid:
  assumes "isGrid H W g" and "y < H" and "x < W"
  shows "coherentCell g (int H) (int W) (constructMatrix (w_self prm))
           (constructMatrix (w_neighbor prm)) y x (g ! y ! x)
       = Inr (evolvedCell g prm H W y x)"
  unfolding coherentCell_def
  by (simp add: foldE_total[where h = "\<lambda>(i, j) s. qadd s (g ! wrapIdx H (int y + i) ! wrapIdx W (int x + j))",
                  OF sumNeighborStep_grid[OF assms]]
        evolvedCell_def neighborSum_def qadd_def Let_def)

lemma performQuantumStep_grid:
  assumes "isGrid H W g" and "0 < H"
  shows "performQuantumStep g prm
       = Inr (mkGrid H W (\<lambda>y x. decohereCell prm (evolvedCell g prm H W y x)))"
proof -
  have len: "length g = H" using assms by (simp add: isGrid_def)
  have g: "g \<noteq> []" using assms len by auto
  have w0: "length (hd g) = W"
    using isGrid_row[OF assms(1,2)] g by (simp add: hd_conv_nth)
  have rows: "mapE (\<lambda>(y, row). mapE (\<lambda>(x, qubit).
                 coherentCell g (int H) (int W) (constructMatrix (w_self prm))
                   (constructMatrix (w_neighbor prm)) y x qubit) (enumerate 0 row))
               (enumerate 0 g)
            = Inr (map (\<lambda>(y, row). map (\<lambda>(x, qubit). evolvedCell g prm H W y x) (enumerate 0 row))
                 (enumerate 0 g))"
  proof (rule mapE_total)
    fix a assume a: "a \<in> set (enumerate 0 g)"
    obtain y row where yr: "a = (y, row)" by (cases a)
    from a yr have y: "y < H" and row: "row = g ! y"
      by (auto simp: in_set_enumerate_eq len)
    have rl: "length row = W" using isGrid_row[OF assms(1) y] row by simp
    have "mapE (\<lambda>(x, qubit). coherentCell g (int H) (int W) (constructMatrix (w_self prm))
                   (constructMatrix (w_neighbor prm)) y x qubit) (enumerate 0 row)
        = Inr (map (\<lambda>(x, qubit). evolvedCell g prm H W y x) (enumerate 0 row))"
    proof (rule mapE_total)
      fix b assume b: "b \<in> set (enumerate 0 row)"
      obtain x q where xq: "b = (x, q)" by (cases b)
      from b xq rl have x: "x < W" and q: "q = g ! y ! x"
        unfolding row by (auto simp: in_set_enumerate_eq)
      show "(case b of (x, qubit) \<Rightarrow> coherentCell g (int H) (int W) (constructMatrix (w_self prm))
                   (constructMatrix (w_neighbor prm)) y x qubit)
          = Inr (case b of (x, qubit) \<Rightarrow> evolvedCell g prm H W y x)"
        unfolding xq q using coherentCell_grid[OF assms(1) y x] by simp
    qed
    then show "(case a of (y, row) \<Rightarrow> mapE (\<lambda>(x, qubit).
                 coherentCell g (int H) (int W) (constructMatrix (w_self prm))
                   (constructMatrix (w_neighbor prm)) y x qubit) (enumerate 0 row))
            = Inr (case a of (y, row) \<Rightarrow> map (\<lambda>(x, qubit). evolvedCell g prm H W y x) (enumerate 0 row))"
      unfolding yr by simp
  qed
  have shape: "map (\<lambda>row. map (decohereCell prm) row)
          (map (\<lambda>(y, row). map (\<lambda>(x, qubit). evolvedCell g prm H W y x) (enumerate 0 row))
                 (enumerate 0 g))
        = mkGrid H W (\<lambda>y x. decohereCell prm (evolvedCell g prm H W y x))"
    unfolding mkGrid_def
    apply (simp add: map_enumerate_nth len o_def)
    apply (rule ballI)
    apply (simp add: isGrid_row[OF assms(1)])
    done
  have "performQuantumStep g prm
      = bindE (mapE (\<lambda>(y, row). mapE (\<lambda>(x, qubit).
                 coherentCell g (int H) (int W) (constructMatrix (w_self prm))
                   (constructMatrix (w_neighbor prm)) y x qubit) (enumerate 0 row))
               (enumerate 0 g))
          (\<lambda>coherentlyEvolvedGrid.
                 Inr (map (\<lambda>row. map (decohereCell prm) row) coherentlyEvolvedGrid))"
    unfolding performQuantumStep_def Let_def len w0 using g by simp
  then show ?thesis by (simp only: rows bindE_Inr shape)
qed

section \<open>Normalization\<close>

lemma unit_after_scaling:
  fixes s a b c d :: real
  assumes "0 < s" and "s * s = a * a + b * b + c * c + d * d"
  shows "a / s * (a / s) + b / s * (b / s) + c / s * (c / s) + d / s * (d / s) = 1"
proof -
  have "a / s * (a / s) + b / s * (b / s) + c / s * (c / s) + d / s * (d / s)
      = (a * a + b * b + c * c + d * d) / (s * s)"
    by (simp add: add_divide_distrib)
  also have "\<dots> = s * s / (s * s)" using assms(2) by simp
  also have "\<dots> = 1" using assms(1) by simp
  finally show ?thesis .
qed

text \<open>
  Claim C5. For every qubit state \<open>q = (alpha, beta)\<close>: if its squared norm is below
  \<open>1e-12\<close>, \<open>normalizeQubit\<close> returns exactly \<open>((1, 0), (0, 0))\<close>; otherwise it returns
  \<open>q\<close> with both components divided by the square root of the squared norm, and the
  squared norm of the result is 1.
\<close>

theorem normalizeQubit_spec:
  "(if sqNorm q < 1 / 10 ^ 12
    then normalizeQubit q = (\<lparr>re = 1, im = 0\<rparr>, \<lparr>re = 0, im = 0\<rparr>)
    else normalizeQubit q =
           (\<lparr>re = re (fst q) / sqrt (sqNorm q), im = im (fst q) / sqrt (sqNorm q)\<rparr>,
            \<lparr>re = re (snd q) / sqrt (sqNorm q), im = im (snd q) / sqrt (sqNorm q)\<rparr>)
         \<and> sqNorm (normalizeQubit q) = 1)"
proof (cases "sqNorm q < 1 / 10 ^ 12")
  case True
  then show ?thesis
    by (cases q) (simp add: normalizeQubit_def sqNorm_def)
next
  case False
  then have pos: "0 < sqNorm q" by simp
  have shape: "normalizeQubit q =
           (\<lparr>re = re (fst q) / sqrt (sqNorm q), im = im (fst q) / sqrt (sqNorm q)\<rparr>,
            \<lparr>re = re (snd q) / sqrt (sqNorm q), im = im (snd q) / sqrt (sqNorm q)\<rparr>)"
    using False by (cases q) (simp add: normalizeQubit_def sqNorm_def Let_def)
  have sq: "sqrt (sqNorm q) * sqrt (sqNorm q) = sqNorm q"
    using pos by simp
  have "sqNorm (normalizeQubit q) = 1"
    unfolding shape using unit_after_scaling[OF _ sq[unfolded sqNorm_def[of q]]] pos
    by (simp add: sqNorm_def)
  then show ?thesis using False shape by simp
qed

theorem normalizeQubit_spec_witness:
  "normalizeQubit (\<lparr>re = 3, im = 0\<rparr>, \<lparr>re = 0, im = 4\<rparr>)
     = (\<lparr>re = 3 / 5, im = 0\<rparr>, \<lparr>re = 0, im = 4 / 5\<rparr>)
   \<and> sqNorm (normalizeQubit (\<lparr>re = 3, im = 0\<rparr>, \<lparr>re = 0, im = 4\<rparr>)) = 1
   \<and> normalizeQubit (\<lparr>re = 0, im = 0\<rparr>, \<lparr>re = 0, im = 1 / 10 ^ 7\<rparr>)
     = (\<lparr>re = 1, im = 0\<rparr>, \<lparr>re = 0, im = 0\<rparr>)"
proof -
  have r: "sqrt 25 = 5" using real_sqrt_abs2[of 5] by simp
  have t: "sqNorm (\<lparr>re = 0, im = 0\<rparr>, \<lparr>re = 0, im = 1 / 10 ^ 7\<rparr>) < 1 / 10 ^ 12"
    by (simp add: sqNorm_def)
  show ?thesis
    using normalizeQubit_spec[of "(\<lparr>re = 3, im = 0\<rparr>, \<lparr>re = 0, im = 4\<rparr>)"]
          normalizeQubit_spec[of "(\<lparr>re = 0, im = 0\<rparr>, \<lparr>re = 0, im = 1 / 10 ^ 7\<rparr>)"]
    using t by (simp add: sqNorm_def r)
qed

section \<open>The quantum step\<close>

lemma mkGrid_cong:
  assumes "\<And>y x. y < H \<Longrightarrow> x < W \<Longrightarrow> f y x = f' y x"
  shows "mkGrid H W f = mkGrid H W f'"
  using assms by (simp add: mkGrid_def)

lemma wrapIdx_shift: "0 < n \<Longrightarrow> wrapIdx n (int (wrapIdx n a) + b) = wrapIdx n (a + b)"
  by (simp add: wrapIdx_def mod_add_left_eq)

lemma wrapIdx_self [simp]: "k < n \<Longrightarrow> wrapIdx n (int k) = k"
  by (simp add: wrapIdx_def)

lemma translateGrid_grid:
  assumes "isGrid H W g" and "0 < H"
  shows "translateGrid dy dx g
       = mkGrid H W (\<lambda>y x. g ! wrapIdx H (int y - dy) ! wrapIdx W (int x - dx))"
proof -
  have len: "length g = H" using assms by (simp add: isGrid_def)
  have g: "g \<noteq> []" using assms len by auto
  have w0: "length (hd g) = W"
    using isGrid_row[OF assms(1,2)] g by (simp add: hd_conv_nth)
  show ?thesis using g by (simp add: translateGrid_def len w0)
qed

lemma decohereCell_eq:
  "decohereCell prm q =
     (let p = prob1 q;
          attractor = (if p \<ge> 1 / 2 then 1 else 0);
          pFinal = max 0 (min 1 ((1 - gamma prm) * p + gamma prm * attractor))
      in (\<lparr>re = sqrt (1 - pFinal), im = 0\<rparr>, \<lparr>re = sqrt pFinal, im = 0\<rparr>))"
  by (simp add: decohereCell_def prob1_def Let_def)

text \<open>
  Claim C1. On every \<open>H \<times> W\<close> quantum grid and for all parameters,
  \<open>performQuantumStep\<close> returns an \<open>H \<times> W\<close> grid whose cell \<open>(y, x)\<close> is
  \<open>((sqrt (1 - pFinal), 0), (sqrt pFinal, 0))\<close>, where \<open>p\<close> is the probability of basis
  state 1 in the normalized coherently evolved state of that cell, the attractor is 1 when
  \<open>p \<ge> 0.5\<close> and 0 otherwise, and \<open>pFinal\<close> is \<open>(1 - gamma) * p + gamma * attractor\<close>
  clamped to \<open>[0, 1]\<close>. Both output amplitudes have imaginary part 0, whatever
  \<open>gamma\<close> is.
\<close>

theorem performQuantumStep_output_cell:
  assumes "isGrid H W g" and "y < H" and "x < W"
  shows "\<exists>out. performQuantumStep g prm = Inr out \<and> isGrid H W out \<and>
           out ! y ! x =
             (let p = prob1 (evolvedCell g prm H W y x);
                  attractor = (if p \<ge> 1 / 2 then 1 else 0);
                  pFinal = max 0 (min 1 ((1 - gamma prm) * p + gamma prm * attractor))
              in (\<lparr>re = sqrt (1 - pFinal), im = 0\<rparr>, \<lparr>re = sqrt pFinal, im = 0\<rparr>)) \<and>
           im (fst (out ! y ! x)) = 0 \<and> im (snd (out ! y ! x)) = 0"
proof -
  have H: "0 < H" using assms(2) by simp
  let ?out = "mkGrid H W (\<lambda>y x. decohereCell prm (evolvedCell g prm H W y x))"
  have step: "performQuantumStep g prm = Inr ?out"
    by (rule performQuantumStep_grid[OF assms(1) H])
  have cell: "?out ! y ! x = decohereCell prm (evolvedCell g prm H W y x)"
    using assms(2,3) by simp
  have "im (fst (?out ! y ! x)) = 0 \<and> im (snd (?out ! y ! x)) = 0"
    unfolding cell by (simp add: decohereCell_def Let_def)
  then show ?thesis
    using step cell decohereCell_eq[of prm "evolvedCell g prm H W y x"] by simp
qed

lemma evolved_default:
  "evolvedCell g DEFAULT_PARAMETERS H W y x = normalizeQubit (g ! y ! x)"
  by (cases "g ! y ! x"; cases "neighborSum g H W y x"; cases "fst (g ! y ! x)";
      cases "snd (g ! y ! x)")
     (simp add: evolvedCell_def DEFAULT_PARAMETERS_def constructMatrix_def scaleMatrix_def
        addMatrices_def pauliI_def pauliX_def pauliY_def pauliZ_def ZERO_C_def ONE_C_def
        applyMatrix_def qadd_def cadd_def cmul_def Let_def)

lemma gamma_default: "gamma DEFAULT_PARAMETERS = 1"
  by (simp add: DEFAULT_PARAMETERS_def)

theorem performQuantumStep_output_cell_witness:
  "isGrid 2 2 [[(ZERO_C, ONE_C), (ONE_C, ZERO_C)], [(ONE_C, ZERO_C), (ONE_C, ZERO_C)]] \<and>
   (\<exists>out. performQuantumStep [[(ZERO_C, ONE_C), (ONE_C, ZERO_C)], [(ONE_C, ZERO_C), (ONE_C, ZERO_C)]]
            DEFAULT_PARAMETERS = Inr out \<and>
          out ! 0 ! 0 = (\<lparr>re = 0, im = 0\<rparr>, \<lparr>re = 1, im = 0\<rparr>))"
  using performQuantumStep_output_cell[of 2 2
      "[[(ZERO_C, ONE_C), (ONE_C, ZERO_C)], [(ONE_C, ZERO_C), (ONE_C, ZERO_C)]]" 0 0
      DEFAULT_PARAMETERS]
  by (auto simp add: isGrid_def evolved_default normalizeQubit_def prob1_def ZERO_C_def ONE_C_def
      gamma_default Let_def)

lemma evolvedCell_translate:
  assumes "isGrid H W g" and "y < H" and "x < W"
  shows "evolvedCell (translateGrid dy dx g) prm H W y x
       = evolvedCell g prm H W (wrapIdx H (int y - dy)) (wrapIdx W (int x - dx))"
proof -
  have H: "0 < H" and W: "0 < W" using assms by auto
  let ?T = "mkGrid H W (\<lambda>y x. g ! wrapIdx H (int y - dy) ! wrapIdx W (int x - dx))"
  have T: "translateGrid dy dx g = ?T" by (rule translateGrid_grid[OF assms(1) H])
  have nb: "?T ! wrapIdx H (int y + i) ! wrapIdx W (int x + j)
          = g ! wrapIdx H (int (wrapIdx H (int y - dy)) + i)
              ! wrapIdx W (int (wrapIdx W (int x - dx)) + j)" for i j
  proof -
    have a: "wrapIdx H (int (wrapIdx H (int y + i)) - dy) = wrapIdx H (int (wrapIdx H (int y - dy)) + i)"
      using wrapIdx_shift[OF H, of "int y + i" "- dy"] wrapIdx_shift[OF H, of "int y - dy" i]
      by (simp add: algebra_simps)
    have b: "wrapIdx W (int (wrapIdx W (int x + j)) - dx) = wrapIdx W (int (wrapIdx W (int x - dx)) + j)"
      using wrapIdx_shift[OF W, of "int x + j" "- dx"] wrapIdx_shift[OF W, of "int x - dx" j]
      by (simp add: algebra_simps)
    show ?thesis using H W by (simp add: a b)
  qed
  have sum: "neighborSum ?T H W y x
           = neighborSum g H W (wrapIdx H (int y - dy)) (wrapIdx W (int x - dx))"
    unfolding neighborSum_def by (simp only: nb)
  have own: "?T ! y ! x = g ! wrapIdx H (int y - dy) ! wrapIdx W (int x - dx)"
    using assms(2,3) by simp
  show ?thesis unfolding T evolvedCell_def sum own ..
qed

text \<open>
  Claim C4. On every \<open>H \<times> W\<close> quantum grid with \<open>H, W \<ge> 1\<close>, for all parameters and
  every offset \<open>(dy, dx)\<close>: stepping the toroidal translation of the grid gives the
  toroidal translation of the stepped grid.
\<close>

theorem performQuantumStep_shift_invariant:
  assumes "isGrid H W g" and "0 < H" and "0 < W"
  shows "\<exists>out. performQuantumStep g prm = Inr out \<and>
           performQuantumStep (translateGrid dy dx g) prm = Inr (translateGrid dy dx out)"
proof -
  let ?out = "mkGrid H W (\<lambda>y x. decohereCell prm (evolvedCell g prm H W y x))"
  let ?T = "translateGrid dy dx g"
  have step: "performQuantumStep g prm = Inr ?out"
    by (rule performQuantumStep_grid[OF assms(1,2)])
  have Tgrid: "isGrid H W ?T"
    by (simp add: translateGrid_grid[OF assms(1,2)])
  have stepT: "performQuantumStep ?T prm
             = Inr (mkGrid H W (\<lambda>y x. decohereCell prm (evolvedCell ?T prm H W y x)))"
    by (rule performQuantumStep_grid[OF Tgrid assms(2)])
  have "translateGrid dy dx ?out
      = mkGrid H W (\<lambda>y x. ?out ! wrapIdx H (int y - dy) ! wrapIdx W (int x - dx))"
    by (rule translateGrid_grid[OF isGrid_mkGrid assms(2)])
  also have "\<dots> = mkGrid H W (\<lambda>y x. decohereCell prm (evolvedCell ?T prm H W y x))"
    by (rule mkGrid_cong) (simp add: assms(2,3) evolvedCell_translate[OF assms(1)])
  finally show ?thesis using step stepT by simp
qed

theorem performQuantumStep_shift_invariant_witness:
  "isGrid 2 2 [[(ZERO_C, ONE_C), (ONE_C, ZERO_C)], [(ONE_C, ZERO_C), (ONE_C, ZERO_C)]] \<and>
   translateGrid 1 1 [[(ZERO_C, ONE_C), (ONE_C, ZERO_C)], [(ONE_C, ZERO_C), (ONE_C, ZERO_C)]]
     = [[(ONE_C, ZERO_C), (ONE_C, ZERO_C)], [(ONE_C, ZERO_C), (ZERO_C, ONE_C)]] \<and>
   (\<exists>out. performQuantumStep [[(ZERO_C, ONE_C), (ONE_C, ZERO_C)], [(ONE_C, ZERO_C), (ONE_C, ZERO_C)]]
            DEFAULT_PARAMETERS = Inr out \<and>
          performQuantumStep [[(ONE_C, ZERO_C), (ONE_C, ZERO_C)], [(ONE_C, ZERO_C), (ZERO_C, ONE_C)]]
            DEFAULT_PARAMETERS = Inr (translateGrid 1 1 out))"
proof -
  have t: "translateGrid 1 1 [[(ZERO_C, ONE_C), (ONE_C, ZERO_C)], [(ONE_C, ZERO_C), (ONE_C, ZERO_C)]]
     = [[(ONE_C, ZERO_C), (ONE_C, ZERO_C)], [(ONE_C, ZERO_C), (ZERO_C, ONE_C)]]"
    by (simp add: translateGrid_def mkGrid_def wrapIdx_def upt_rec[of 0 2] upt_rec[of 1 2])
  have g: "isGrid 2 2 [[(ZERO_C, ONE_C), (ONE_C, ZERO_C)], [(ONE_C, ZERO_C), (ONE_C, ZERO_C)]]"
    by (simp add: isGrid_def)
  show ?thesis
    using performQuantumStep_shift_invariant[OF g, where dy = 1 and dx = 1
        and prm = DEFAULT_PARAMETERS] g
    unfolding t by simp
qed

section \<open>The classical step\<close>

lemma fold_count_Some:
  "fold (\<lambda>a acc. case (acc, Some (v a)) of (Some n, Some c) \<Rightarrow> Some (n + c) | _ \<Rightarrow> None) as (Some n0)
   = Some (fold (\<lambda>a n. n + v a) as (n0::int))"
  by (induction as arbitrary: n0) simp_all

lemma neighborCountStep_grid:
  assumes "isGrid H W g" and "y < H" and "x < W" and "ij \<in> set neighborOffsets"
  shows "neighborCountStep g (int H) (int W) y x ij acc
       = Inr (case (acc, Some ((\<lambda>(i, j). g ! wrapIdx H (int y + i) ! wrapIdx W (int x + j)) ij)) of
                (Some n, Some c) \<Rightarrow> Some (n + c) | _ \<Rightarrow> None)"
proof -
  obtain i j where ij: "ij = (i, j)" by (cases ij)
  from assms(4) ij have r: "i \<in> {-1, 0, 1}" "j \<in> {-1, 0, 1}"
    using neighborOffsets_range by blast+
  have H: "0 < H" and W: "0 < W" using assms by auto
  show ?thesis
    unfolding ij neighborCountStep_def
    by (simp add: jsRem_neighbor[OF H assms(2) r(1)] jsRem_neighbor[OF W assms(3) r(2)]
        elemAt2_grid[OF assms(1)] H W)
qed

lemma golCell_grid:
  assumes "isGrid H W g" and "y < H" and "x < W"
  shows "golCell g (int H) (int W) y x = Inr (golRule (g ! y ! x) (golCount g H W y x))"
proof -
  have "foldE (neighborCountStep g (int H) (int W) y x) neighborOffsets (Some 0)
      = Inr (Some (golCount g H W y x))"
    unfolding golCount_def
    by (simp only: foldE_total[where h = "\<lambda>a acc. case (acc, Some ((\<lambda>(i, j). g ! wrapIdx H (int y + i) ! wrapIdx W (int x + j)) a)) of
                (Some n, Some c) \<Rightarrow> Some (n + c) | _ \<Rightarrow> None", OF neighborCountStep_grid[OF assms]]
        fold_count_Some[where v = "\<lambda>(i, j). g ! wrapIdx H (int y + i) ! wrapIdx W (int x + j)"])
       (simp add: case_prod_unfold)
  then show ?thesis
    by (simp add: golCell_def elemAt2_grid[OF assms] golRule_def)
qed

lemma performGOLStep_grid:
  assumes "isGrid H W g" and "0 < H"
  shows "performGOLStep g = Inr (mkGrid H W (\<lambda>y x. golRule (g ! y ! x) (golCount g H W y x)))"
proof -
  have len: "length g = H" using assms by (simp add: isGrid_def)
  have g: "g \<noteq> []" using assms len by auto
  have w0: "length (hd g) = W"
    using isGrid_row[OF assms(1,2)] g by (simp add: hd_conv_nth)
  have "mapE (\<lambda>y. mapE (\<lambda>x. golCell g (int H) (int W) y x) [0..<W]) [0..<H]
      = Inr (map (\<lambda>y. map (\<lambda>x. golRule (g ! y ! x) (golCount g H W y x)) [0..<W]) [0..<H])"
    by (rule mapE_total, rule mapE_total) (simp add: golCell_grid[OF assms(1)])
  then show ?thesis
    unfolding performGOLStep_def Let_def len w0 mkGrid_def using g by simp
qed

section \<open>The reversible registers\<close>

lemma mapE_enumerate_grid:
  assumes "isGrid H W g"
    and "\<And>y x. y < H \<Longrightarrow> x < W \<Longrightarrow> f y x (g ! y ! x) = Inr (h y x)"
  shows "mapE (\<lambda>(y, row). mapE (\<lambda>(x, v). f y x v) (enumerate 0 row)) (enumerate 0 g)
       = Inr (mkGrid H W h)"
proof -
  have len: "length g = H" using assms(1) by (simp add: isGrid_def)
  have row: "mapE (\<lambda>(x, v). f y x v) (enumerate 0 (g ! y)) = Inr (map (h y) [0..<W])" if "y < H" for y
  proof -
    have rl: "length (g ! y) = W" by (rule isGrid_row[OF assms(1) that])
    have "mapE (\<lambda>(x, v). f y x v) (enumerate 0 (g ! y))
        = Inr (map (\<lambda>(x, v). h y x) (enumerate 0 (g ! y)))"
      by (rule mapE_total) (auto simp: in_set_enumerate_eq rl assms(2)[OF that])
    then show ?thesis by (simp add: map_enumerate_nth rl)
  qed
  have "mapE (\<lambda>(y, row). mapE (\<lambda>(x, v). f y x v) (enumerate 0 row)) (enumerate 0 g)
      = Inr (map (\<lambda>(y, row). map (h y) [0..<W]) (enumerate 0 g))"
    by (rule mapE_total) (auto simp: in_set_enumerate_eq len row)
  then show ?thesis by (simp add: map_enumerate_nth len mkGrid_def)
qed

lemma foldl_plus_sum_list: "foldl (\<lambda>s c. s + c) a row = (a::int) + sum_list row"
  by (induction row arbitrary: a) simp_all

lemma foldl_rows_sum_list:
  "foldl (\<lambda>acc row. acc + foldl (\<lambda>s c. s + c) 0 row) a g = (a::int) + sum_list (map sum_list g)"
  by (induction g arbitrary: a) (simp_all add: foldl_plus_sum_list)

lemma binary_row_sum_zero:
  assumes "list_all (\<lambda>v. v = 0 \<or> v = (1::int)) row"
  shows "sum_list row = 0 \<longleftrightarrow> list_all (\<lambda>v. v = 0) row"
proof -
  have nn: "\<forall>v\<in>set row. 0 \<le> v" using assms by (auto simp: list_all_iff)
  have "sum_list row = 0 \<longleftrightarrow> (\<forall>v\<in>set row. v = 0)"
    by (rule sum_list_nonneg_eq_0_iff) (use nn in blast)
  then show ?thesis by (simp add: list_all_iff)
qed

lemma binary_population_zero:
  assumes "binaryGrid g"
  shows "sum_list (map sum_list g) = 0 \<longleftrightarrow> allZero g"
proof -
  have nn: "\<forall>s\<in>set (map sum_list g). 0 \<le> s"
    using assms by (fastforce simp: binaryGrid_def list_all_iff intro!: sum_list_nonneg)
  have "sum_list (map sum_list g) = 0 \<longleftrightarrow> (\<forall>s\<in>set (map sum_list g). s = 0)"
    by (rule sum_list_nonneg_eq_0_iff) (use nn in blast)
  also have "\<dots> \<longleftrightarrow> (\<forall>row\<in>set g. sum_list row = 0)"
    by simp
  also have "\<dots> \<longleftrightarrow> (\<forall>row\<in>set g. list_all (\<lambda>v. v = 0) row)"
    using assms binary_row_sum_zero by (auto simp: binaryGrid_def list_all_iff)
  finally show ?thesis by (simp add: allZero_def list_all_iff)
qed

lemma isTargetClean_iff:
  "binaryGrid (targetGrid s) \<Longrightarrow> isTargetClean s \<longleftrightarrow> allZero (targetGrid s)"
  by (simp add: isTargetClean_def targetPopulation_def foldl_rows_sum_list binary_population_zero)

lemma jsXor_zero_bit: "u = 0 \<or> u = 1 \<Longrightarrow> jsXor 0 (Some u) = u"
  by (auto simp: jsXor_def)

lemma golRule_binary: "golRule c n = 0 \<or> golRule c n = 1"
  by (simp add: golRule_def)

lemma allZero_nth: "isGrid H W g \<Longrightarrow> allZero g \<Longrightarrow> y < H \<Longrightarrow> x < W \<Longrightarrow> g ! y ! x = 0"
  by (simp add: allZero_def isGrid_def list_all_length)

lemma xorUpdate_clean:
  assumes "isGrid H W target" and "allZero target"
    and "isGrid H W update" and "\<And>y x. y < H \<Longrightarrow> x < W \<Longrightarrow> update ! y ! x = 0 \<or> update ! y ! x = 1"
  shows "xorUpdate target update = Inr update"
proof -
  have "xorUpdate target update = Inr (mkGrid H W (\<lambda>y x. update ! y ! x))"
    unfolding xorUpdate_def
    by (rule mapE_enumerate_grid[OF assms(1)])
       (simp add: elemAt2_grid[OF assms(3)] allZero_nth[OF assms(1,2)] jsXor_zero_bit assms(4))
  then show ?thesis using isGrid_eq_mkGrid[OF assms(3)] by simp
qed

text \<open>
  Claim C6. For every pair of registers, two grids of one size with at least one row (the
  hook keeps them at \<open>GRID_SIZE\<close> rows and columns) and a target of 0 and 1: if the
  target is all-zero, \<open>advanceCycle\<close> returns \<open>true\<close>, the system becomes
  \<open>performGOLStep\<close> of the old system and the target becomes the old system; if the
  target is not all-zero, it returns \<open>false\<close> and both registers are unchanged.
\<close>

theorem advanceCycle_spec:
  assumes "isGrid H W system" and "isGrid H W target" and "0 < H" and "binaryGrid target"
  shows "if allZero target
         then \<exists>next. performGOLStep system = Inr next \<and>
                advanceCycle \<lparr>systemGrid = system, targetGrid = target\<rparr>
                  = Inr (True, \<lparr>systemGrid = next, targetGrid = system\<rparr>)
         else advanceCycle \<lparr>systemGrid = system, targetGrid = target\<rparr>
                = Inr (False, \<lparr>systemGrid = system, targetGrid = target\<rparr>)"
proof -
  let ?s = "\<lparr>systemGrid = system, targetGrid = target\<rparr>"
  let ?next = "mkGrid H W (\<lambda>y x. golRule (system ! y ! x) (golCount system H W y x))"
  have step: "performGOLStep system = Inr ?next"
    by (rule performGOLStep_grid[OF assms(1,3)])
  have clean: "isTargetClean ?s \<longleftrightarrow> allZero target"
    using isTargetClean_iff[of ?s] assms(4) by simp
  show ?thesis
  proof (cases "allZero target")
    case True
    have "xorUpdate target ?next = Inr ?next"
      by (rule xorUpdate_clean[OF assms(2) True isGrid_mkGrid]) (simp add: golRule_binary)
    then have "advanceCycle ?s = Inr (True, \<lparr>systemGrid = ?next, targetGrid = system\<rparr>)"
      using True clean step by (simp add: advanceCycle_def computePreview_def cloneGrid_def Let_def)
    then show ?thesis using True step by simp
  next
    case False
    then show ?thesis
      using clean step by (simp add: advanceCycle_def computePreview_def)
  qed
qed

theorem advanceCycle_spec_witness:
  "advanceCycle \<lparr>systemGrid = [[0, 1], [1, 1]], targetGrid = [[0, 0], [0, 1]]\<rparr>
     = Inr (False, \<lparr>systemGrid = [[0, 1], [1, 1]], targetGrid = [[0, 0], [0, 1]]\<rparr>) \<and>
   (\<exists>next. performGOLStep [[0, 1], [1, 1]] = Inr next \<and>
       advanceCycle \<lparr>systemGrid = [[0, 1], [1, 1]], targetGrid = [[0, 0], [0, 0]]\<rparr>
         = Inr (True, \<lparr>systemGrid = next, targetGrid = [[0, 1], [1, 1]]\<rparr>))"
  using advanceCycle_spec[of 2 2 "[[0, 1], [1, 1]]" "[[0, 0], [0, 1]]"]
        advanceCycle_spec[of 2 2 "[[0, 1], [1, 1]]" "[[0, 0], [0, 0]]"]
  by (simp add: isGrid_def binaryGrid_def allZero_def)

section \<open>Encoding a classical grid\<close>

lemma getClassicalState_basis:
  "getClassicalState (\<lparr>re = 0, im = 0\<rparr>, \<lparr>re = 1, im = 0\<rparr>) = 1"
  "getClassicalState (\<lparr>re = 1, im = 0\<rparr>, \<lparr>re = 0, im = 0\<rparr>) = 0"
  by (simp_all add: getClassicalState_def)

lemma binaryGrid_nth:
  "isGrid H W g \<Longrightarrow> binaryGrid g \<Longrightarrow> y < H \<Longrightarrow> x < W \<Longrightarrow> g ! y ! x = 0 \<or> g ! y ! x = 1"
  by (simp add: binaryGrid_def isGrid_def list_all_length)

text \<open>
  Claim C10, as amended. For every classical grid of 0 and 1 whose rows all have the
  length of the first row, and that length is at least 1 (or the grid has no row at all),
  encoding with \<open>createQubitGridFromClassical\<close> and decoding each cell with
  \<open>getClassicalState\<close> gives the grid back.
\<close>

theorem roundTrip_identity:
  assumes "isGrid H W classical" and "0 < W" and "binaryGrid classical"
  shows "roundTrip classical = classical"
proof (cases "classical = []")
  case True
  then show ?thesis by (simp add: roundTrip_def createQubitGridFromClassical_def)
next
  case False
  have len: "length classical = H" using assms(1) by (simp add: isGrid_def)
  have H: "0 < H" using False len by auto
  have w0: "length (hd classical) = W"
    using isGrid_row[OF assms(1) H] False by (simp add: hd_conv_nth)
  have ne: "hd classical \<noteq> []" using w0 assms(2) by auto
  have "roundTrip classical
      = mkGrid H W (\<lambda>y x. getClassicalState
          (if elemAt (classical ! y) (Some (int x)) = Some 1
           then (\<lparr>re = 0, im = 0\<rparr>, \<lparr>re = 1, im = 0\<rparr>)
           else (\<lparr>re = 1, im = 0\<rparr>, \<lparr>re = 0, im = 0\<rparr>)))"
    using False ne
    by (simp add: roundTrip_def createQubitGridFromClassical_def Let_def len w0 mkGrid_def o_def)
  also have "\<dots> = mkGrid H W (\<lambda>y x. classical ! y ! x)"
  proof (rule mkGrid_cong)
    fix y x assume y: "y < H" and x: "x < W"
    have "elemAt (classical ! y) (Some (int x)) = Some (classical ! y ! x)"
      using isGrid_row[OF assms(1) y] x by (simp add: elemAt_def)
    then show "getClassicalState
          (if elemAt (classical ! y) (Some (int x)) = Some 1
           then (\<lparr>re = 0, im = 0\<rparr>, \<lparr>re = 1, im = 0\<rparr>)
           else (\<lparr>re = 1, im = 0\<rparr>, \<lparr>re = 0, im = 0\<rparr>)) = classical ! y ! x"
      using binaryGrid_nth[OF assms(1,3) y x] by (auto simp: getClassicalState_basis)
  qed
  finally show ?thesis using isGrid_eq_mkGrid[OF assms(1)] by simp
qed

theorem roundTrip_identity_witness:
  "roundTrip [[0, 1, 1], [1, 0, 0]] = [[0, 1, 1], [1, 0, 0]]"
  using roundTrip_identity[of 2 3 "[[0, 1, 1], [1, 0, 0]]"]
  by (simp add: isGrid_def binaryGrid_def)

text \<open>
  As stated for every grid of 0 and 1, the claim fails: a grid whose first row is empty
  is encoded as the empty grid, and rows longer than the first are cut to its length.
\<close>

theorem roundTrip_counterexample:
  "roundTrip [[]] \<noteq> [[]] \<and> roundTrip [[1], [1, 1]] \<noteq> [[1], [1, 1]]"
  by (simp add: roundTrip_def createQubitGridFromClassical_def elemAt_def getClassicalState_def)

section \<open>The blinker\<close>

lemma wrapIdx_pred: "k < n \<Longrightarrow> wrapIdx n (int k - 1) = (if k = 0 then n - 1 else k - 1)"
proof (cases "k = 0")
  case True
  assume "k < n"
  then have "(- 1) mod int n = int n - 1" by (intro zmod_minus1) simp
  then show ?thesis using True by (simp add: wrapIdx_def)
next
  case False
  assume "k < n"
  then have "(int k - 1) mod int n = int k - 1" using False by (intro mod_pos_pos_trivial) auto
  then show ?thesis using False by (simp add: wrapIdx_def)
qed

lemma wrapIdx_succ: "k < n \<Longrightarrow> wrapIdx n (int k + 1) = (if k + 1 = n then 0 else k + 1)"
proof (cases "k + 1 = n")
  case True
  then have "int k + 1 = int n" by simp
  then have "wrapIdx n (int k + 1) = 0" unfolding wrapIdx_def by (simp only: mod_self nat_0)
  then show ?thesis using True by simp
next
  case False
  assume "k < n"
  then have "(int k + 1) mod int n = int k + 1" using False by (intro mod_pos_pos_trivial) auto
  then show ?thesis using False by (simp add: wrapIdx_def nat_add_distrib)
qed

lemma near_cases:
  assumes "a < n" and "k < n"
  shows "near n a k \<longleftrightarrow>
     (k = a \<or> (a = 0 \<and> k + 1 = n) \<or> (0 < a \<and> k + 1 = a) \<or> (a + 1 = n \<and> k = 0) \<or> (a + 1 < n \<and> k = a + 1))"
  using assms unfolding near_def by (simp add: wrapIdx_pred wrapIdx_succ) arith

lemma near_pred:
  assumes "a < n" and "k < n"
  shows "near n a (wrapIdx n (int k - 1)) \<longleftrightarrow>
     (if k = 0 then near n a (n - 1) else near n a (k - 1))"
  using assms by (simp add: wrapIdx_pred)

lemma near_succ:
  assumes "a < n" and "k < n"
  shows "near n a (wrapIdx n (int k + 1)) \<longleftrightarrow>
     (if k + 1 = n then near n a 0 else near n a (k + 1))"
  using assms by (simp add: wrapIdx_succ)

lemma cnt3_window_centre:
  assumes "4 \<le> n" and "a < n" and "k < n"
  shows "cnt3 (near n a) n k = 3 \<longleftrightarrow> k = a"
proof -
  have all3: "cnt3 (near n a) n k = 3 \<longleftrightarrow>
      near n a (wrapIdx n (int k - 1)) \<and> near n a k \<and> near n a (wrapIdx n (int k + 1))"
    by (simp add: cnt3_def of_bool_def)
  show ?thesis
  proof (cases "k = 0")
    case True
    then show ?thesis
      unfolding all3 near_pred[OF assms(2,3)] near_succ[OF assms(2,3)]
      using assms by (simp add: near_cases) arith
  next
    case False
    show ?thesis
    proof (cases "k + 1 = n")
      case True
      then show ?thesis
        unfolding all3 near_pred[OF assms(2,3)] near_succ[OF assms(2,3)]
        using assms False by (simp add: near_cases) arith
    next
      case nl: False
      then show ?thesis
        unfolding all3 near_pred[OF assms(2,3)] near_succ[OF assms(2,3)]
        using assms False by (simp add: near_cases) arith
    qed
  qed
qed

lemma cnt3_bounds: "0 \<le> cnt3 P n k \<and> cnt3 P n k \<le> 3"
  by (simp add: cnt3_def of_bool_def)

lemma cnt3_single:
  assumes "3 \<le> n" and "a < n" and "k < n"
  shows "cnt3 (\<lambda>k. k = a) n k = of_bool (near n a k)"
proof -
  have eq: "cnt3 (\<lambda>k. k = a) n k
      = of_bool ((if k = 0 then n - 1 else k - 1) = a) + of_bool (k = a)
        + of_bool ((if k + 1 = n then 0 else k + 1) = a)"
    unfolding cnt3_def wrapIdx_pred[OF assms(3)] wrapIdx_succ[OF assms(3)] ..
  show ?thesis
  proof (cases "k = 0")
    case True
    then show ?thesis
      unfolding eq using assms by (simp add: near_cases of_bool_def) arith
  next
    case False
    show ?thesis
    proof (cases "k + 1 = n")
      case True
      then show ?thesis
        unfolding eq using assms False by (simp add: near_cases of_bool_def) arith
    next
      case nl: False
      then show ?thesis
        unfolding eq using assms False by (simp add: near_cases of_bool_def) arith
    qed
  qed
qed

lemma golRule_cross:
  fixes s w :: int
  assumes "s = of_bool ny" and "e \<Longrightarrow> ny" and "w = 3 \<longleftrightarrow> kc" and "0 \<le> w" and "w \<le> 3"
    and "kc \<Longrightarrow> nb"
  shows "golRule (of_bool (e \<and> nb)) (s * w - of_bool (e \<and> nb)) = of_bool (ny \<and> kc)"
proof (cases "e \<and> nb")
  case True
  then have "s = 1" using assms(1,2) by simp
  then show ?thesis using True assms(2,3,4,5) by (auto simp: golRule_def)
next
  case False
  then show ?thesis using assms(1,3,6) by (auto simp: golRule_def)
qed

lemma golCount_product:
  assumes "y < H" and "x < W"
  shows "golCount (mkGrid H W (\<lambda>y x. of_bool (R y \<and> C x))) H W y x
       = cnt3 R H y * cnt3 C W x - of_bool (R y \<and> C x)"
proof -
  have H: "0 < H" and W: "0 < W" using assms by auto
  have m1: "int y + - 1 = int y - 1" "int x + - 1 = int x - 1" by simp_all
  show ?thesis
    unfolding golCount_def neighborOffsets_eq cnt3_def
    using assms
    by (simp add: H W m1 of_bool_def)
qed

lemma near_self: "near n a a"
  by (simp add: near_def)

lemma blinker_step_horizontal:
  assumes "3 \<le> H" and "4 \<le> W" and "r < H" and "cc < W"
  shows "performGOLStep (mkGrid H W (\<lambda>y x. of_bool (y = r \<and> near W cc x)))
       = Inr (mkGrid H W (\<lambda>y x. of_bool (near H r y \<and> x = cc)))"
proof -
  let ?g = "mkGrid H W (\<lambda>y x. of_bool (y = r \<and> near W cc x))"
  have H: "0 < H" using assms(1) by simp
  have step: "performGOLStep ?g = Inr (mkGrid H W (\<lambda>y x. golRule (?g ! y ! x) (golCount ?g H W y x)))"
    by (rule performGOLStep_grid[OF isGrid_mkGrid H])
  have "mkGrid H W (\<lambda>y x. golRule (?g ! y ! x) (golCount ?g H W y x))
      = mkGrid H W (\<lambda>y x. of_bool (near H r y \<and> x = cc))"
  proof (rule mkGrid_cong)
    fix y x assume y: "y < H" and x: "x < W"
    have cell: "?g ! y ! x = of_bool (y = r \<and> near W cc x)" using y x by simp
    have cnt: "golCount ?g H W y x
        = cnt3 (\<lambda>y. y = r) H y * cnt3 (near W cc) W x - of_bool (y = r \<and> near W cc x)"
      by (rule golCount_product[OF y x])
    show "golRule (?g ! y ! x) (golCount ?g H W y x) = of_bool (near H r y \<and> x = cc)"
      unfolding cell cnt
    proof (rule golRule_cross)
      show "cnt3 (\<lambda>y. y = r) H y = of_bool (near H r y)"
        by (rule cnt3_single[OF assms(1,3) y])
      show "cnt3 (near W cc) W x = 3 \<longleftrightarrow> x = cc"
        by (rule cnt3_window_centre[OF assms(2,4) x])
      show "0 \<le> cnt3 (near W cc) W x" "cnt3 (near W cc) W x \<le> 3"
        using cnt3_bounds by blast+
      show "near H r y" if "y = r" using that by (simp add: near_self)
      show "near W cc x" if "x = cc" using that by (simp add: near_self)
    qed
  qed
  then show ?thesis using step by simp
qed

lemma blinker_step_vertical:
  assumes "4 \<le> H" and "3 \<le> W" and "r < H" and "cc < W"
  shows "performGOLStep (mkGrid H W (\<lambda>y x. of_bool (near H r y \<and> x = cc)))
       = Inr (mkGrid H W (\<lambda>y x. of_bool (y = r \<and> near W cc x)))"
proof -
  let ?g = "mkGrid H W (\<lambda>y x. of_bool (near H r y \<and> x = cc))"
  have H: "0 < H" using assms(1) by simp
  have step: "performGOLStep ?g = Inr (mkGrid H W (\<lambda>y x. golRule (?g ! y ! x) (golCount ?g H W y x)))"
    by (rule performGOLStep_grid[OF isGrid_mkGrid H])
  have "mkGrid H W (\<lambda>y x. golRule (?g ! y ! x) (golCount ?g H W y x))
      = mkGrid H W (\<lambda>y x. of_bool (y = r \<and> near W cc x))"
  proof (rule mkGrid_cong)
    fix y x assume y: "y < H" and x: "x < W"
    have cell: "?g ! y ! x = of_bool (x = cc \<and> near H r y)"
      using y x by (simp add: conj_commute)
    have cnt: "golCount ?g H W y x
        = cnt3 (\<lambda>x. x = cc) W x * cnt3 (near H r) H y - of_bool (x = cc \<and> near H r y)"
      using golCount_product[OF y x, of "near H r" "\<lambda>x. x = cc"]
      by (simp add: conj_commute mult.commute)
    have "golRule (?g ! y ! x) (golCount ?g H W y x) = of_bool (near W cc x \<and> y = r)"
      unfolding cell cnt
    proof (rule golRule_cross)
      show "cnt3 (\<lambda>x. x = cc) W x = of_bool (near W cc x)"
        by (rule cnt3_single[OF assms(2,4) x])
      show "cnt3 (near H r) H y = 3 \<longleftrightarrow> y = r"
        by (rule cnt3_window_centre[OF assms(1,3) y])
      show "0 \<le> cnt3 (near H r) H y" "cnt3 (near H r) H y \<le> 3"
        using cnt3_bounds by blast+
      show "near W cc x" if "x = cc" using that by (simp add: near_self)
      show "near H r y" if "y = r" using that by (simp add: near_self)
    qed
    then show "golRule (?g ! y ! x) (golCount ?g H W y x) = of_bool (y = r \<and> near W cc x)"
      by (simp add: conj_commute)
  qed
  then show ?thesis using step by simp
qed

lemma blinkerGrid_near:
  assumes "c + 3 \<le> W"
  shows "blinkerGrid H W r c = mkGrid H W (\<lambda>y x. of_bool (y = r \<and> near W (c + 1) x))"
  unfolding blinkerGrid_def
proof (rule mkGrid_cong)
  fix y x assume "y < H" and x: "x < W"
  have "near W (c + 1) x \<longleftrightarrow> c \<le> x \<and> x < c + 3"
    using assms x by (simp add: near_cases) arith
  then show "(if y = r \<and> c \<le> x \<and> x < c + 3 then 1 else 0) = (of_bool (y = r \<and> near W (c + 1) x) :: int)"
    by simp
qed

lemma verticalBlinkerGrid_near:
  "verticalBlinkerGrid H W r c = mkGrid H W (\<lambda>y x. of_bool (near H r y \<and> x = c + 1))"
  unfolding verticalBlinkerGrid_def
  by (rule mkGrid_cong) (auto simp: near_def)

lemma blinker_phases_differ:
  assumes "r < H" and "c + 3 \<le> W"
  shows "verticalBlinkerGrid H W r c \<noteq> blinkerGrid H W r c"
proof
  assume eq: "verticalBlinkerGrid H W r c = blinkerGrid H W r c"
  have c: "c < W" using assms(2) by simp
  have "verticalBlinkerGrid H W r c ! r ! c = 0"
    unfolding verticalBlinkerGrid_def using assms(1) c by simp
  moreover have "blinkerGrid H W r c ! r ! c = 1"
    unfolding blinkerGrid_def using assms(1) c by simp
  ultimately show False using eq by simp
qed

text \<open>
  Claim C7. On every toroidal classical grid with at least 4 rows and 4 columns (so on
  the \<open>32 \<times> 32\<close> grid) that is zero except for one horizontal blinker \<open>[[1, 1, 1]]\<close>,
  the blinker is a period-2 oscillator: one \<open>performGOLStep\<close> turns it into the vertical
  blinker through its centre, which is a different grid, and the next one turns that back,
  so two applications return exactly the grid they started from.
\<close>

theorem blinker_period_two:
  assumes "4 \<le> H" and "4 \<le> W" and "r < H" and "c + 3 \<le> W"
  shows "performGOLStep (blinkerGrid H W r c) = Inr (verticalBlinkerGrid H W r c) \<and>
         performGOLStep (verticalBlinkerGrid H W r c) = Inr (blinkerGrid H W r c) \<and>
         verticalBlinkerGrid H W r c \<noteq> blinkerGrid H W r c \<and>
         bindE (performGOLStep (blinkerGrid H W r c)) performGOLStep = Inr (blinkerGrid H W r c)"
proof -
  have cc: "c + 1 < W" using assms(4) by simp
  have h3: "3 \<le> H" and w3: "3 \<le> W" using assms(1,2) by simp_all
  have one: "performGOLStep (blinkerGrid H W r c) = Inr (verticalBlinkerGrid H W r c)"
    unfolding blinkerGrid_near[OF assms(4)] verticalBlinkerGrid_near
    by (rule blinker_step_horizontal[OF h3 assms(2,3) cc])
  have two: "performGOLStep (verticalBlinkerGrid H W r c) = Inr (blinkerGrid H W r c)"
    unfolding blinkerGrid_near[OF assms(4)] verticalBlinkerGrid_near
    by (rule blinker_step_vertical[OF assms(1) w3 assms(3) cc])
  have "bindE (performGOLStep (blinkerGrid H W r c)) performGOLStep = Inr (blinkerGrid H W r c)"
    by (simp only: one bindE_Inr two)
  then show ?thesis using one two blinker_phases_differ[OF assms(3,4)] by simp
qed

theorem blinker_period_two_witness:
  "performGOLStep (blinkerGrid 32 32 15 14) = Inr (verticalBlinkerGrid 32 32 15 14) \<and>
   performGOLStep (verticalBlinkerGrid 32 32 15 14) = Inr (blinkerGrid 32 32 15 14) \<and>
   verticalBlinkerGrid 32 32 15 14 \<noteq> blinkerGrid 32 32 15 14 \<and>
   bindE (performGOLStep (blinkerGrid 32 32 15 14)) performGOLStep = Inr (blinkerGrid 32 32 15 14)"
  using blinker_period_two[of 32 32 15 14] by simp

section \<open>The fitness evaluator\<close>

lemma bindE_InrE:
  assumes "bindE m f = Inr r"
  obtains a where "m = Inr a" and "f a = Inr r"
  using assms by (cases m) simp_all

lemma foldE_invariant:
  assumes "foldE f as s = Inr s'" and "P s"
    and "\<And>a s s'. a \<in> set as \<Longrightarrow> P s \<Longrightarrow> f a s = Inr s' \<Longrightarrow> P s'"
  shows "P s'"
  using assms
proof (induction as arbitrary: s)
  case Nil
  then show ?case by simp
next
  case (Cons a as)
  from Cons.prems(1) obtain s1 where s1: "f a s = Inr s1" and rest: "foldE f as s1 = Inr s'"
    by (cases "f a s") simp_all
  have "P s1" using Cons.prems(3)[of a s s1] Cons.prems(2) s1 by simp
  show ?case by (rule Cons.IH[OF rest \<open>P s1\<close>]) (use Cons.prems(3) in auto)
qed

lemma foldE_total_inv:
  assumes "P s" and "\<And>a s. a \<in> set as \<Longrightarrow> P s \<Longrightarrow> \<exists>s'. f a s = Inr s' \<and> P s'"
  shows "\<exists>s'. foldE f as s = Inr s' \<and> P s'"
  using assms
proof (induction as arbitrary: s)
  case Nil
  then show ?case by simp
next
  case (Cons a as)
  from Cons.prems obtain s1 where s1: "f a s = Inr s1" "P s1" by fastforce
  show ?case using Cons.IH[OF s1(2)] Cons.prems(2) s1(1) by simp
qed

lemma nonnegJ_add_abs: "nonnegJ m \<Longrightarrow> nonnegJ (jsAdd m (jsAbs v))"
  by (cases m; cases v) simp_all

lemma fitnessCell_nonneg:
  assumes "fitnessCell cand truth prev y x (m, pop, fl) = Inr (m', pop', fl')" and "nonnegJ m"
  shows "nonnegJ m'"
proof -
  from assms(1) obtain c t where "m' = jsAdd m (jsAbs (jsSub (toNumber c) (toNumber t)))"
    unfolding fitnessCell_def bindE_def
    by (auto split: sum.splits option.splits)
  then show ?thesis using assms(2) by (simp add: nonnegJ_add_abs)
qed

lemma fitnessCells_nonneg:
  assumes "foldE (\<lambda>y. foldE (\<lambda>x. fitnessCell cand truth prev y x) xs) ys acc = Inr acc'"
    and "nonnegJ (fst acc)"
  shows "nonnegJ (fst acc')"
proof (rule foldE_invariant[OF assms(1), where P = "\<lambda>acc. nonnegJ (fst acc)"])
  show "nonnegJ (fst acc)" by (rule assms(2))
next
  fix y a a' assume "nonnegJ (fst a)" and row: "foldE (\<lambda>x. fitnessCell cand truth prev y x) xs a = Inr a'"
  show "nonnegJ (fst a')"
  proof (rule foldE_invariant[OF row, where P = "\<lambda>acc. nonnegJ (fst acc)"])
    show "nonnegJ (fst a)" by fact
  next
    fix x b b' assume "nonnegJ (fst b)" and "fitnessCell cand truth prev y x b = Inr b'"
    then show "nonnegJ (fst b')"
      using fitnessCell_nonneg[of cand truth prev y x "fst b" "fst (snd b)" "snd (snd b)"
          "fst b'" "fst (snd b')" "snd (snd b')"] by simp
  qed
qed

lemma fitnessStep_nonneg:
  assumes "fitnessStep p traj step st = Inr st'" and "errorsNonneg st"
  shows "errorsNonneg st'"
proof -
  obtain q prev m pe de h where st: "st = (q, prev, m, pe, de, h)" by (cases st)
  from assms(1) have run: "bindE (performQuantumStep q (p\<lparr>gamma := 1\<rparr>)) (\<lambda>q1.
      bindE (foldE (\<lambda>y. foldE (\<lambda>x. fitnessCell (map (\<lambda>row. map getClassicalState row) q1)
                 (elemAt traj (Some (int step + 1))) prev y x) [0..<FITNESS_GRID_SIZE])
              [0..<FITNESS_GRID_SIZE] (m, Num 0, 0))
        (\<lambda>(m', pop', fl'). case elemAt traj (Some (int step + 1)) of None \<Rightarrow> Inl TypeError
           | Some truth \<Rightarrow>
               Inr (q1, map (\<lambda>row. map getClassicalState row) q1, m',
                    jsAdd pe (jsAbs (jsSub pop' (Num (of_int (population truth))))),
                    de + \<bar>of_int (fl' - flipsSincePrevStep truth)\<bar>, h @ [fl']))) = Inr st'"
    unfolding fitnessStep_def st Let_def by simp
  from run obtain q1 where q1: "performQuantumStep q (p\<lparr>gamma := 1\<rparr>) = Inr q1"
    and run2: "bindE (foldE (\<lambda>y. foldE (\<lambda>x. fitnessCell (map (\<lambda>row. map getClassicalState row) q1)
                 (elemAt traj (Some (int step + 1))) prev y x) [0..<FITNESS_GRID_SIZE])
              [0..<FITNESS_GRID_SIZE] (m, Num 0, 0))
        (\<lambda>(m', pop', fl'). case elemAt traj (Some (int step + 1)) of None \<Rightarrow> Inl TypeError
           | Some truth \<Rightarrow>
               Inr (q1, map (\<lambda>row. map getClassicalState row) q1, m',
                    jsAdd pe (jsAbs (jsSub pop' (Num (of_int (population truth))))),
                    de + \<bar>of_int (fl' - flipsSincePrevStep truth)\<bar>, h @ [fl'])) = Inr st'"
    by (rule bindE_InrE)
  let ?cand = "map (\<lambda>row. map getClassicalState row) q1"
  let ?truth = "elemAt traj (Some (int step + 1))"
  from run2 obtain acc' where
    cells: "foldE (\<lambda>y. foldE (\<lambda>x. fitnessCell ?cand ?truth prev y x) [0..<FITNESS_GRID_SIZE])
              [0..<FITNESS_GRID_SIZE] (m, Num 0, 0) = Inr acc'"
    and run3: "(case acc' of (m', pop', fl') \<Rightarrow> (case ?truth of None \<Rightarrow> Inl TypeError
           | Some truth \<Rightarrow>
               Inr (q1, ?cand, m',
                    jsAdd pe (jsAbs (jsSub pop' (Num (of_int (population truth))))),
                    de + \<bar>of_int (fl' - flipsSincePrevStep truth)\<bar>, h @ [fl']))) = Inr st'"
    by (rule bindE_InrE)
  obtain m' pop' fl' where acc': "acc' = (m', pop', fl')" by (cases acc')
  have "\<exists>truth::TrajectoryStep. st' = (q1, ?cand, m',
                jsAdd pe (jsAbs (jsSub pop' (Num (of_int (population truth))))),
                de + \<bar>of_int (fl' - flipsSincePrevStep truth)\<bar>, h @ [fl'])"
  proof (cases ?truth)
    case None
    then show ?thesis using run3 unfolding acc' by simp
  next
    case (Some truth)
    then have "st' = (q1, ?cand, m',
                jsAdd pe (jsAbs (jsSub pop' (Num (of_int (population truth))))),
                de + \<bar>of_int (fl' - flipsSincePrevStep truth)\<bar>, h @ [fl'])"
      using run3 unfolding acc' by simp
    then show ?thesis by (rule exI[of _ truth])
  qed
  then obtain truth :: TrajectoryStep where
    st': "st' = (q1, ?cand, m',
                jsAdd pe (jsAbs (jsSub pop' (Num (of_int (population truth))))),
                de + \<bar>of_int (fl' - flipsSincePrevStep truth)\<bar>, h @ [fl'])" ..
  have "nonnegJ m'"
    using fitnessCells_nonneg[OF cells] assms(2) by (simp add: st acc' errorsNonneg_def)
  then show ?thesis
    using assms(2) unfolding st' st errorsNonneg_def by (simp add: nonnegJ_add_abs)
qed

lemma fitnessLoop_nonneg:
  assumes "foldE (fitnessStep p traj) steps st = Inr st'" and "errorsNonneg st"
  shows "errorsNonneg st'"
  by (rule foldE_invariant[OF assms(1), where P = errorsNonneg, OF assms(2)])
     (rule fitnessStep_nonneg)

lemma score_bounds:
  assumes "nonnegJ m" and "nonnegJ pe" and "0 \<le> de"
    and "(if b then jsMul (jsDiv (Num 1)
             (jsAdd (Num 1) (jsAdd (jsAdd m (jsMul pe (Num POPULATION_PENALTY_WEIGHT)))
                (Num (de * DYNAMISM_ERROR_WEIGHT))))) (Num DYNAMISM_BONUS_MULTIPLIER)
          else jsDiv (Num 1)
             (jsAdd (Num 1) (jsAdd (jsAdd m (jsMul pe (Num POPULATION_PENALTY_WEIGHT)))
                (Num (de * DYNAMISM_ERROR_WEIGHT))))) = Num f"
  shows "0 < f \<and> f \<le> DYNAMISM_BONUS_MULTIPLIER"
proof -
  from assms(4) obtain a c where m: "m = Num a" and pe: "pe = Num c"
    by (cases m; cases pe; cases b) simp_all
  define t where "t = a + c * POPULATION_PENALTY_WEIGHT + de * DYNAMISM_ERROR_WEIGHT"
  have t: "0 \<le> t"
    using assms(1,2,3) unfolding t_def m pe
    by (simp add: POPULATION_PENALTY_WEIGHT_def DYNAMISM_ERROR_WEIGHT_def)
  define u where "u = 1 / (1 + t)"
  have q: "0 < u" "u \<le> 1" using t unfolding u_def by simp_all
  have "f = u * DYNAMISM_BONUS_MULTIPLIER \<or> f = u"
    using assms(4) t unfolding m pe t_def u_def by (cases b) (simp_all split: if_splits)
  then show ?thesis
    using q unfolding DYNAMISM_BONUS_MULTIPLIER_def by auto
qed

lemma calculateFitness_range:
  assumes "calculateFitness p traj = Inr (Num f)"
  shows "if traj = [] then f = 0 else 0 < f \<and> f \<le> DYNAMISM_BONUS_MULTIPLIER"
proof (cases "traj = []")
  case True
  then show ?thesis using assms by (simp add: calculateFitness_def)
next
  case False
  let ?init = "(createQubitGridFromClassical (grid (hd traj)), grid (hd traj), Num 0, Num 0, 0::real, []::int list)"
  from assms False obtain st' where loop: "foldE (fitnessStep p traj) [0..<FITNESS_SIM_STEPS] ?init = Inr st'"
    unfolding calculateFitness_def Let_def
    by (cases "foldE (fitnessStep p traj) [0..<FITNESS_SIM_STEPS] ?init") simp_all
  obtain q prev m pe de h where st': "st' = (q, prev, m, pe, de, h)" by (cases st')
  have "errorsNonneg ?init" by (simp add: errorsNonneg_def)
  then have nn: "nonnegJ m" "nonnegJ pe" "0 \<le> de"
    using fitnessLoop_nonneg[OF loop] by (simp_all add: st' errorsNonneg_def)
  have "0 < f \<and> f \<le> DYNAMISM_BONUS_MULTIPLIER"
    by (rule score_bounds[OF nn]) (use assms False in \<open>simp add: calculateFitness_def Let_def loop st'\<close>)
  then show ?thesis using False by simp
qed

lemma isGrid_map_map: "isGrid H W g \<Longrightarrow> isGrid H W (map (\<lambda>row. map f row) g)"
  by (simp add: isGrid_def list_all_iff)

lemma jsAdd_defined: "a \<noteq> NaN \<Longrightarrow> b \<noteq> NaN \<Longrightarrow> jsAdd a b \<noteq> NaN"
  by (cases a; cases b) simp_all

lemma jsSub_defined: "a \<noteq> NaN \<Longrightarrow> b \<noteq> NaN \<Longrightarrow> jsSub a b \<noteq> NaN"
  by (cases a; cases b) simp_all

lemma jsAbs_defined: "a \<noteq> NaN \<Longrightarrow> jsAbs a \<noteq> NaN"
  by (cases a) simp_all

lemma toNumber_defined: "toNumber (Some v) \<noteq> NaN"
  by (simp add: toNumber_def)

lemma fitnessCell_total:
  assumes "isGrid H W cand" and "isGrid H W (grid truth)" and "isGrid H W prev"
    and "y < H" and "x < W" and "cellsDefined acc"
  shows "\<exists>acc'. fitnessCell cand (Some truth) prev y x acc = Inr acc' \<and> cellsDefined acc'"
proof -
  obtain m pop fl where acc: "acc = (m, pop, fl)" by (cases acc)
  show ?thesis
    using assms(6) unfolding acc fitnessCell_def cellsDefined_def
    by (simp add: elemAt2_grid[OF assms(1,4,5)] elemAt2_grid[OF assms(2,4,5)]
        elemAt2_grid[OF assms(3,4,5)] jsAdd_defined jsSub_defined jsAbs_defined toNumber_defined)
qed

lemma fitnessCells_total:
  assumes "isGrid H W cand" and "isGrid H W (grid truth)" and "isGrid H W prev"
    and "cellsDefined acc"
  shows "\<exists>acc'. foldE (\<lambda>y. foldE (\<lambda>x. fitnessCell cand (Some truth) prev y x) [0..<W]) [0..<H] acc
           = Inr acc' \<and> cellsDefined acc'"
proof (rule foldE_total_inv[where P = cellsDefined, OF assms(4)])
  fix y a assume y: "y \<in> set [0..<H]" and a: "cellsDefined a"
  show "\<exists>a'. foldE (\<lambda>x. fitnessCell cand (Some truth) prev y x) [0..<W] a = Inr a' \<and> cellsDefined a'"
  proof (rule foldE_total_inv[where P = cellsDefined, OF a])
    fix x b assume "x \<in> set [0..<W]" and "cellsDefined b"
    then show "\<exists>b'. fitnessCell cand (Some truth) prev y x b = Inr b' \<and> cellsDefined b'"
      using fitnessCell_total[OF assms(1,2,3)] y by simp
  qed
qed

lemma wellFormed_step:
  assumes "wellFormedTrajectory traj" and "step < FITNESS_SIM_STEPS"
  shows "elemAt traj (Some (int step + 1)) = Some (traj ! Suc step)"
    and "isGrid FITNESS_GRID_SIZE FITNESS_GRID_SIZE (grid (traj ! Suc step))"
proof -
  have len: "Suc step < length traj" using assms by (simp add: wellFormedTrajectory_def)
  have "nat (int step + 1) = Suc step" by simp
  then show "elemAt traj (Some (int step + 1)) = Some (traj ! Suc step)"
    using len by (simp add: elemAt_def)
  show "isGrid FITNESS_GRID_SIZE FITNESS_GRID_SIZE (grid (traj ! Suc step))"
    using assms(1) len by (simp add: wellFormedTrajectory_def list_all_length)
qed

lemma fitnessStep_total:
  assumes "wellFormedTrajectory traj" and "step \<in> set [0..<FITNESS_SIM_STEPS]" and "loopDefined st"
  shows "\<exists>st'. fitnessStep p traj step st = Inr st' \<and> loopDefined st'"
proof -
  obtain q prev m pe de h where st: "st = (q, prev, m, pe, de, h)" by (cases st)
  have step: "step < FITNESS_SIM_STEPS" using assms(2) by simp
  have N: "0 < FITNESS_GRID_SIZE" by (simp add: FITNESS_GRID_SIZE_def)
  from assms(3) have q: "isGrid FITNESS_GRID_SIZE FITNESS_GRID_SIZE q"
    and prev: "isGrid FITNESS_GRID_SIZE FITNESS_GRID_SIZE prev"
    and m: "m \<noteq> NaN" and pe: "pe \<noteq> NaN"
    by (simp_all add: loopDefined_def st)
  obtain q1 where q1: "performQuantumStep q (p\<lparr>gamma := 1\<rparr>) = Inr q1"
    and q1g: "isGrid FITNESS_GRID_SIZE FITNESS_GRID_SIZE q1"
    using performQuantumStep_grid[OF q N] isGrid_mkGrid by blast
  let ?cand = "map (\<lambda>row. map getClassicalState row) q1"
  let ?truth = "traj ! Suc step"
  have cand: "isGrid FITNESS_GRID_SIZE FITNESS_GRID_SIZE ?cand"
    by (rule isGrid_map_map[OF q1g])
  have "cellsDefined (m, Num 0, 0)" using m by (simp add: cellsDefined_def)
  then obtain acc' where
    cells: "foldE (\<lambda>y. foldE (\<lambda>x. fitnessCell ?cand (Some ?truth) prev y x) [0..<FITNESS_GRID_SIZE])
              [0..<FITNESS_GRID_SIZE] (m, Num 0, 0) = Inr acc'"
    and acc': "cellsDefined acc'"
    using fitnessCells_total[OF cand wellFormed_step(2)[OF assms(1) step] prev] by blast
  obtain m' pop' fl' where a: "acc' = (m', pop', fl')" by (cases acc')
  have "fitnessStep p traj step st
      = Inr (q1, ?cand, m', jsAdd pe (jsAbs (jsSub pop' (Num (of_int (population ?truth))))),
             de + \<bar>of_int (fl' - flipsSincePrevStep ?truth)\<bar>, h @ [fl'])"
    unfolding fitnessStep_def st
    by (simp add: q1 Let_def wellFormed_step(1)[OF assms(1) step] cells a)
  moreover have "loopDefined (q1, ?cand, m', jsAdd pe (jsAbs (jsSub pop' (Num (of_int (population ?truth))))),
             de + \<bar>of_int (fl' - flipsSincePrevStep ?truth)\<bar>, h @ [fl'])"
    using acc' pe q1g cand
    by (simp add: loopDefined_def a cellsDefined_def jsAdd_defined jsSub_defined jsAbs_defined)
  ultimately show ?thesis by simp
qed

lemma createQubitGrid_isGrid:
  assumes "isGrid H W classical" and "0 < H" and "0 < W"
  shows "isGrid H W (createQubitGridFromClassical classical)"
proof -
  have len: "length classical = H" using assms(1) by (simp add: isGrid_def)
  have ne: "classical \<noteq> []" using len assms(2) by auto
  have w0: "length (hd classical) = W"
    using isGrid_row[OF assms(1,2)] ne by (simp add: hd_conv_nth)
  have "hd classical \<noteq> []" using w0 assms(3) by auto
  then show ?thesis
    using ne by (simp add: createQubitGridFromClassical_def Let_def len w0 isGrid_def list_all_iff)
qed

lemma calculateFitness_total:
  assumes "wellFormedTrajectory traj"
  shows "\<exists>f. calculateFitness p traj = Inr (Num f)"
proof -
  have ne: "traj \<noteq> []" using assms by (auto simp: wellFormedTrajectory_def)
  have N: "0 < FITNESS_GRID_SIZE" by (simp add: FITNESS_GRID_SIZE_def)
  have g0: "isGrid FITNESS_GRID_SIZE FITNESS_GRID_SIZE (grid (hd traj))"
    using assms ne by (cases traj) (simp_all add: wellFormedTrajectory_def)
  let ?init = "(createQubitGridFromClassical (grid (hd traj)), grid (hd traj), Num 0, Num 0, 0::real, []::int list)"
  have init: "loopDefined ?init"
    using g0 createQubitGrid_isGrid[OF g0 N N] by (simp add: loopDefined_def)
  have "\<exists>st'. foldE (fitnessStep p traj) [0..<FITNESS_SIM_STEPS] ?init = Inr st' \<and> loopDefined st'"
  proof (rule foldE_total_inv[where P = loopDefined, OF init])
    fix a s assume "a \<in> set [0..<FITNESS_SIM_STEPS]" and "loopDefined s"
    then show "\<exists>s'. fitnessStep p traj a s = Inr s' \<and> loopDefined s'"
      by (rule fitnessStep_total[OF assms])
  qed
  then obtain st' where loop: "foldE (fitnessStep p traj) [0..<FITNESS_SIM_STEPS] ?init = Inr st'"
    and def': "loopDefined st'" by blast
  obtain q prev m pe de h where st': "st' = (q, prev, m, pe, de, h)" by (cases st')
  have "errorsNonneg ?init" by (simp add: errorsNonneg_def)
  then have nn: "nonnegJ m" "nonnegJ pe" "0 \<le> de"
    using fitnessLoop_nonneg[OF loop] by (simp_all add: st' errorsNonneg_def)
  from def' obtain a c where m: "m = Num a" and pe: "pe = Num c"
    unfolding st' loopDefined_def by (cases m; cases pe) simp_all
  have t: "0 \<le> a + c * POPULATION_PENALTY_WEIGHT + de * DYNAMISM_ERROR_WEIGHT"
    using nn unfolding m pe by (simp add: POPULATION_PENALTY_WEIGHT_def DYNAMISM_ERROR_WEIGHT_def)
  then have "1 + (a + c * POPULATION_PENALTY_WEIGHT + de * DYNAMISM_ERROR_WEIGHT) \<noteq> 0" by simp
  then show ?thesis
    using ne by (simp add: calculateFitness_def Let_def loop st' m pe)
qed

text \<open>
  Claim C2, as amended. For every candidate and every non-empty ground-truth trajectory,
  a number that \<open>calculateFitness\<close> returns is greater than 0 and at most the dynamism
  bonus multiplier 1.5; and on a trajectory of more than \<open>FITNESS_SIM_STEPS\<close> snapshots
  whose grids have the fitness grid size, as \<open>precomputeGroundTruth\<close> builds it,
  \<open>calculateFitness\<close> does return a number. (On the empty trajectory it returns 0.)
\<close>

theorem calculateFitness_bounds:
  assumes "traj \<noteq> []"
  shows "(\<forall>f. calculateFitness p traj = Inr (Num f) \<longrightarrow> 0 < f \<and> f \<le> DYNAMISM_BONUS_MULTIPLIER) \<and>
         (wellFormedTrajectory traj \<longrightarrow> (\<exists>f. calculateFitness p traj = Inr (Num f)))"
  using calculateFitness_range[of p traj] calculateFitness_total[of traj p] assms by auto

text \<open>
  Claim C3. On the empty ground-truth trajectory \<open>calculateFitness\<close> returns exactly
  0 for every candidate, and throws nothing.
\<close>

theorem calculateFitness_empty: "calculateFitness p [] = Inr (Num 0)"
  by (simp add: calculateFitness_def)

text \<open>
  Claim C8. Two candidates that differ in \<open>gamma\<close> only have the same fitness on every
  ground-truth trajectory: the evaluator steps with \<open>gamma\<close> set to 1.
\<close>

theorem calculateFitness_ignores_gamma:
  assumes "w_self p1 = w_self p2" and "w_neighbor p1 = w_neighbor p2"
  shows "calculateFitness p1 traj = calculateFitness p2 traj"
proof -
  have "p1\<lparr>gamma := 1\<rparr> = p2\<lparr>gamma := 1\<rparr>" using assms by simp
  then have "fitnessStep p1 traj = fitnessStep p2 traj"
    by (intro ext) (simp add: fitnessStep_def)
  then show ?thesis by (simp add: calculateFitness_def)
qed

theorem calculateFitness_bounds_witness:
  "replicate 16 \<lparr>grid = replicate 32 (replicate 32 0), population = 0, flipsSincePrevStep = 0\<rparr> \<noteq> [] \<and>
   wellFormedTrajectory
     (replicate 16 \<lparr>grid = replicate 32 (replicate 32 0), population = 0, flipsSincePrevStep = 0\<rparr>) \<and>
   (\<exists>f. calculateFitness DEFAULT_PARAMETERS
           (replicate 16 \<lparr>grid = replicate 32 (replicate 32 0), population = 0,
                           flipsSincePrevStep = 0\<rparr>) = Inr (Num f) \<and>
        0 < f \<and> f \<le> DYNAMISM_BONUS_MULTIPLIER)"
proof -
  let ?t = "replicate 16 \<lparr>grid = replicate 32 (replicate 32 (0::int)), population = 0,
                          flipsSincePrevStep = 0\<rparr>"
  have ne: "?t \<noteq> []" by simp
  have wf: "wellFormedTrajectory ?t"
    by (simp add: wellFormedTrajectory_def FITNESS_SIM_STEPS_def FITNESS_GRID_SIZE_def isGrid_def
        list_all_iff)
  show ?thesis
    using calculateFitness_bounds[OF ne, of DEFAULT_PARAMETERS] wf ne by blast
qed

text \<open>
  As stated for every trajectory, claim C2 fails on the empty one, where the fitness is 0.
\<close>

theorem calculateFitness_bounds_counterexample:
  "\<not> (case calculateFitness DEFAULT_PARAMETERS [] of
        Inl e \<Rightarrow> False
      | Inr v \<Rightarrow> (case v of NaN \<Rightarrow> False | Num f \<Rightarrow> 0 < f \<and> f \<le> DYNAMISM_BONUS_MULTIPLIER))"
  by (simp add: calculateFitness_def)

theorem calculateFitness_ignores_gamma_witness:
  "calculateFitness DEFAULT_PARAMETERS
     (replicate 16 \<lparr>grid = replicate 32 (replicate 32 1), population = 1024, flipsSincePrevStep = 0\<rparr>)
   = calculateFitness (DEFAULT_PARAMETERS\<lparr>gamma := 0\<rparr>)
     (replicate 16 \<lparr>grid = replicate 32 (replicate 32 1), population = 1024, flipsSincePrevStep = 0\<rparr>)"
  using calculateFitness_ignores_gamma[of DEFAULT_PARAMETERS "DEFAULT_PARAMETERS\<lparr>gamma := 0\<rparr>"]
  by simp

section \<open>The genetic search\<close>

lemma mapE_InrD:
  assumes "mapE f as = Inr bs" and "b \<in> set bs"
  shows "\<exists>a\<in>set as. f a = Inr b"
  using assms
proof (induction as arbitrary: bs)
  case Nil
  then show ?case by simp
next
  case (Cons a as)
  from Cons.prems(1) obtain b0 where b0: "f a = Inr b0"
    and r: "bindE (mapE f as) (\<lambda>bs. Inr (b0 # bs)) = Inr bs"
    by (auto elim: bindE_InrE)
  from r obtain bs0 where bs0: "mapE f as = Inr bs0" and bs: "bs = b0 # bs0"
    by (auto elim: bindE_InrE)
  show ?case using Cons.IH[OF bs0] Cons.prems(2) b0 bs by auto
qed

lemma set_insertScore: "set (insertScore a bs) = insert a (set bs)"
  by (induction bs) auto

lemma set_sortScores: "set (sortScores scores) = set scores"
  by (induction scores) (simp_all add: sortScores_def set_insertScore)

lemma scorePopulation_member:
  assumes "scorePopulation s = Inr scores" and "sc \<in> set scores"
  shows "params sc \<in> set (populationRef s) \<and>
         calculateFitness (params sc) (groundTruthTrajectoryRef s) = Inr (fitness sc)"
proof -
  from mapE_InrD[OF assms(1)[unfolded scorePopulation_def] assms(2)]
  obtain p where p: "p \<in> set (populationRef s)"
    and sc: "bindE (calculateFitness p (groundTruthTrajectoryRef s))
               (\<lambda>f. Inr \<lparr>params = p, fitness = f\<rparr>) = Inr sc" by blast
  from sc obtain f where "calculateFitness p (groundTruthTrajectoryRef s) = Inr f"
    and "sc = \<lparr>params = p, fitness = f\<rparr>" by (auto elim: bindE_InrE)
  then show ?thesis using p by simp
qed

lemma score_nonneg:
  assumes "calculateFitness p traj = Inr (Num f)"
  shows "0 \<le> f"
  using calculateFitness_range[OF assms] by (auto split: if_splits)

lemma recordBest_fields:
  "generationRef (recordBest s b) = generationRef s"
  "generation (searchProgress (recordBest s b)) = generationRef s"
  by (simp_all add: recordBest_def Let_def split: jsnum.splits)

lemma recordBest_monotone:
  assumes "bestParams s = None \<longrightarrow> bestFitness (searchProgress s) = 0"
    and "\<And>f. fitness b = Num f \<Longrightarrow> 0 \<le> f"
  shows "bestFitness (searchProgress s) \<le> bestFitness (searchProgress (recordBest s b))"
    and "bestParams (recordBest s b) = None \<longrightarrow> bestFitness (searchProgress (recordBest s b)) = 0"
  using assms by (auto simp: recordBest_def Let_def split: jsnum.splits option.splits)

lemma runGeneration_cases:
  assumes "runGeneration s rs = Inr (s', rs')"
  obtains scores best rest np where
    "scorePopulation (s\<lparr>generationRef := generationRef s + 1\<rparr>) = Inr scores"
    "sortScores scores = best # rest"
    "s' = (recordBest (s\<lparr>generationRef := generationRef s + 1\<rparr>) best)\<lparr>isSearching := False\<rparr> \<or>
     s' = (recordBest (s\<lparr>generationRef := generationRef s + 1\<rparr>) best)\<lparr>populationRef := np\<rparr>"
proof -
  let ?s1 = "s\<lparr>generationRef := generationRef s + 1\<rparr>"
  from assms obtain scores where sc: "scorePopulation ?s1 = Inr scores"
    and r: "(case sortScores scores of [] \<Rightarrow> Inl TypeError
              | bestIndividual # _ \<Rightarrow>
                  if jsGreater (fitness bestIndividual) (Num (149 / 100))
                  then Inr ((recordBest ?s1 bestIndividual)\<lparr>isSearching := False\<rparr>, rs)
                  else bindE (nextPopulation (sortScores scores) rs)
                         (\<lambda>(newPopulation, rs).
                            Inr ((recordBest ?s1 bestIndividual)\<lparr>populationRef := newPopulation\<rparr>, rs)))
            = Inr (s', rs')"
    unfolding runGeneration_def Let_def by (auto elim: bindE_InrE)
  from r obtain best rest where srt: "sortScores scores = best # rest"
    by (cases "sortScores scores") simp_all
  show ?thesis
  proof (cases "jsGreater (fitness best) (Num (149 / 100))")
    case True
    then have "s' = (recordBest ?s1 best)\<lparr>isSearching := False\<rparr>"
      using r srt by simp
    then show ?thesis using that[OF sc srt] by blast
  next
    case False
    then have "bindE (nextPopulation (best # rest) rs)
                 (\<lambda>(newPopulation, rs). Inr ((recordBest ?s1 best)\<lparr>populationRef := newPopulation\<rparr>, rs))
               = Inr (s', rs')"
      using r srt by simp
    then obtain np where "s' = (recordBest ?s1 best)\<lparr>populationRef := np\<rparr>"
      by (auto elim!: bindE_InrE)
    then show ?thesis using that[OF sc srt] by blast
  qed
qed

lemma runGeneration_step:
  assumes "runGeneration s rs = Inr (s', rs')" and "searchInv s"
  shows "generationRef s' = generationRef s + 1"
    and "generation (searchProgress s') = generation (searchProgress s) + 1"
    and "bestFitness (searchProgress s) \<le> bestFitness (searchProgress s')"
    and "searchInv s'"
proof -
  let ?s1 = "s\<lparr>generationRef := generationRef s + 1\<rparr>"
  from runGeneration_cases[OF assms(1)] obtain scores best rest np where
    sc: "scorePopulation ?s1 = Inr scores" and srt: "sortScores scores = best # rest"
    and s': "s' = (recordBest ?s1 best)\<lparr>isSearching := False\<rparr> \<or>
             s' = (recordBest ?s1 best)\<lparr>populationRef := np\<rparr>" by blast
  have "best \<in> set scores" using set_sortScores[of scores] srt by auto
  then have fit: "calculateFitness (params best) (groundTruthTrajectoryRef ?s1) = Inr (fitness best)"
    using scorePopulation_member[OF sc] by blast
  have nn: "0 \<le> f" if "fitness best = Num f" for f
    using fit that score_nonneg by simp
  have inv1: "bestParams ?s1 = None \<longrightarrow> bestFitness (searchProgress ?s1) = 0"
    using assms(2) by (simp add: searchInv_def)
  note mono = recordBest_monotone[OF inv1 nn]
  note flds = recordBest_fields[of ?s1 best]
  show "generationRef s' = generationRef s + 1" using s' flds by auto
  show "generation (searchProgress s') = generation (searchProgress s) + 1"
    using s' flds assms(2) by (auto simp: searchInv_def)
  show "bestFitness (searchProgress s) \<le> bestFitness (searchProgress s')"
    using s' mono(1) by auto
  show "searchInv s'"
    using s' mono(2) flds by (auto simp: searchInv_def)
qed

lemma searchRun_inv: "searchRun s \<Longrightarrow> searchInv s"
proof (induction rule: searchRun.induct)
  case (initialized s rs s0 rs0)
  then show ?case
    by (auto simp: initializeSearch_def searchInv_def split: prod.splits elim!: bindE_InrE)
next
  case (generation s rs s' rs')
  then show ?case using runGeneration_step(4) by blast
qed

lemma runGeneration_progress:
  assumes "searchRun s" and "runGeneration s rs = Inr (s', rs')"
  shows "generationRef s' = generationRef s + 1 \<and>
         generation (searchProgress s') = generation (searchProgress s) + 1 \<and>
         bestFitness (searchProgress s) \<le> bestFitness (searchProgress s')"
  using runGeneration_step[OF assms(2) searchRun_inv[OF assms(1)]] by simp

lemma unitRandom_cong: "fst rs' = fst rs \<Longrightarrow> unitRandom rs' = unitRandom rs"
  by (simp add: unitRandom_def)

lemma mathRandom_src: "mathRandom rs = (r, rs') \<Longrightarrow> fst rs' = fst rs"
  by (auto simp: mathRandom_def)

lemma mathRandom_unit: "unitRandom rs \<Longrightarrow> mathRandom rs = (r, rs') \<Longrightarrow> 0 \<le> r \<and> r < 1"
  by (auto simp: mathRandom_def unitRandom_def)

lemma pick_src: "pick a b rs = (v, rs') \<Longrightarrow> fst rs' = fst rs"
  by (auto simp: pick_def split: prod.splits dest: mathRandom_src)

lemma crossoverCoefficients_src: "crossoverCoefficients p1 p2 rs = (v, rs') \<Longrightarrow> fst rs' = fst rs"
  unfolding crossoverCoefficients_def
  by (auto split: prod.splits dest!: pick_src)

lemma crossover_src: "crossover p1 p2 rs = (v, rs') \<Longrightarrow> fst rs' = fst rs"
  unfolding crossover_def
  by (auto split: prod.splits dest!: crossoverCoefficients_src)

lemma mutatePart_src: "mutatePart x rs = (v, rs') \<Longrightarrow> fst rs' = fst rs"
  unfolding mutatePart_def
  by (auto split: prod.splits if_splits dest!: mathRandom_src)

lemma mutateComplex_src: "mutateComplex c rs = (v, rs') \<Longrightarrow> fst rs' = fst rs"
  unfolding mutateComplex_def
  by (auto split: prod.splits dest!: mutatePart_src)

lemma mutateCoefficients_src: "mutateCoefficients c rs = (v, rs') \<Longrightarrow> fst rs' = fst rs"
  unfolding mutateCoefficients_def
  by (auto split: prod.splits dest!: mutateComplex_src)

lemma mutate_src: "mutate p rs = (v, rs') \<Longrightarrow> fst rs' = fst rs"
  unfolding mutate_def
  by (auto split: prod.splits dest!: mutateCoefficients_src)

lemma random_index:
  assumes "0 \<le> r" and "r < 1" and "xs \<noteq> []"
  shows "elemAt xs (Some \<lfloor>r * real (length xs)\<rfloor>) = Some (xs ! nat \<lfloor>r * real (length xs)\<rfloor>)"
proof -
  have n: "0 < real (length xs)" using assms(3) by simp
  have "r * real (length xs) < real (length xs)" using assms(2) n by simp
  then have "\<lfloor>r * real (length xs)\<rfloor> < int (length xs)" by (simp add: floor_less_iff)
  moreover have "0 \<le> \<lfloor>r * real (length xs)\<rfloor>" using assms(1) by simp
  ultimately show ?thesis by (simp add: elemAt_def)
qed

lemma selectParent_total:
  assumes "unitRandom rs" and "scores \<noteq> []"
  shows "\<exists>p rs'. selectParent scores rs = Inr (p, rs') \<and> fst rs' = fst rs"
proof -
  obtain r1 rs1 where m1: "mathRandom rs = (r1, rs1)" by (cases "mathRandom rs")
  obtain r2 rs2 where m2: "mathRandom rs1 = (r2, rs2)" by (cases "mathRandom rs1")
  obtain r3 rs3 where m3: "mathRandom rs2 = (r3, rs3)" by (cases "mathRandom rs2")
  have s1: "fst rs1 = fst rs" and s2: "fst rs2 = fst rs" and s3: "fst rs3 = fst rs"
    using mathRandom_src[OF m1] mathRandom_src[OF m2] mathRandom_src[OF m3] by simp_all
  have u1: "unitRandom rs1" using assms(1) unitRandom_cong[OF s1] by simp
  have r1: "0 \<le> r1 \<and> r1 < 1" by (rule mathRandom_unit[OF assms(1) m1])
  have r2: "0 \<le> r2 \<and> r2 < 1" by (rule mathRandom_unit[OF u1 m2])
  have "\<exists>p. selectParent scores rs = Inr (p, rs3)"
    unfolding selectParent_def
    using r1 r2
    by (simp add: m1 m2 m3 Let_def random_index[OF _ _ assms(2)] split: prod.splits)
  then show ?thesis using s3 by blast
qed

lemma makeChild_total:
  assumes "unitRandom rs" and "scores \<noteq> []"
  shows "\<exists>child rs'. makeChild scores rs = Inr (child, rs') \<and> fst rs' = fst rs"
proof -
  obtain p1 rs1 where a: "selectParent scores rs = Inr (p1, rs1)" and s1: "fst rs1 = fst rs"
    using selectParent_total[OF assms] by blast
  have u1: "unitRandom rs1" using assms(1) unitRandom_cong[OF s1] by simp
  obtain p2 rs2 where b: "selectParent scores rs1 = Inr (p2, rs2)" and s2: "fst rs2 = fst rs1"
    using selectParent_total[OF u1 assms(2)] by blast
  obtain r rs3 where c: "mathRandom rs2 = (r, rs3)" by (cases "mathRandom rs2")
  have s3: "fst rs3 = fst rs2" by (rule mathRandom_src[OF c])
  obtain ch rs4 where d: "(if r < CROSSOVER_RATE then crossover p1 p2 rs3 else (p1, rs3)) = (ch, rs4)"
    by (cases "if r < CROSSOVER_RATE then crossover p1 p2 rs3 else (p1, rs3)")
  have s4: "fst rs4 = fst rs3"
    using d crossover_src by (auto split: if_splits)
  obtain child rs5 where e: "mutate ch rs4 = (child, rs5)" by (cases "mutate ch rs4")
  have s5: "fst rs5 = fst rs4" by (rule mutate_src[OF e])
  have "makeChild scores rs = Inr (child, rs5)"
    unfolding makeChild_def by (simp add: a b c d e)
  then show ?thesis using s1 s2 s3 s4 s5 by simp
qed

lemma fillPopulation_total:
  assumes "unitRandom rs" and "scores \<noteq> []"
  shows "\<exists>r. fillPopulation scores np rs = Inr r"
  using assms
proof (induction "POPULATION_SIZE - length np" arbitrary: np rs)
  case 0
  then show ?case by (subst fillPopulation.simps) simp
next
  case (Suc n)
  then have lt: "length np < POPULATION_SIZE" by simp
  obtain child rs' where mk: "makeChild scores rs = Inr (child, rs')" and src: "fst rs' = fst rs"
    using makeChild_total[OF Suc.prems] by blast
  have u: "unitRandom rs'" using Suc.prems(1) unitRandom_cong[OF src] by simp
  have "n = POPULATION_SIZE - length (np @ [child])" using Suc.hyps(2) by simp
  from Suc.hyps(1)[OF this u Suc.prems(2)] obtain r
    where r: "fillPopulation scores (np @ [child]) rs' = Inr r" by blast
  have "fillPopulation scores np rs = fillPopulation scores (np @ [child]) rs'"
    by (subst fillPopulation.simps) (simp add: lt mk)
  then have "fillPopulation scores np rs = Inr r" by (simp only: r)
  then show ?case by (rule exI)
qed

lemma length_insertScore: "length (insertScore a bs) = Suc (length bs)"
  by (induction bs) simp_all

lemma length_sortScores: "length (sortScores scores) = length scores"
  by (induction scores) (simp_all add: sortScores_def length_insertScore)

lemma nextPopulation_total:
  assumes "unitRandom rs" and "ELITISM_COUNT \<le> length scores"
  shows "\<exists>r. nextPopulation scores rs = Inr r"
proof -
  have ne: "scores \<noteq> []" using assms(2) by (auto simp: ELITISM_COUNT_def)
  have "mapE (\<lambda>i. case elemAt scores (Some (int i)) of None \<Rightarrow> Inl TypeError
                   | Some sc \<Rightarrow> Inr (params sc)) [0..<ELITISM_COUNT]
      = Inr (map (\<lambda>i. params (scores ! i)) [0..<ELITISM_COUNT])"
    by (rule mapE_total) (use assms(2) in \<open>simp add: elemAt_def\<close>)
  then show ?thesis
    unfolding nextPopulation_def using fillPopulation_total[OF assms(1) ne] by simp
qed

lemma runGeneration_total:
  assumes "unitRandom rs" and "ELITISM_COUNT \<le> length (populationRef s)"
    and "\<And>p. p \<in> set (populationRef s) \<Longrightarrow> \<exists>f. calculateFitness p (groundTruthTrajectoryRef s) = Inr f"
  shows "\<exists>s' rs'. runGeneration s rs = Inr (s', rs')"
proof -
  let ?s1 = "s\<lparr>generationRef := generationRef s + 1\<rparr>"
  have "\<exists>scores. scorePopulation ?s1 = Inr scores \<and> length scores = length (populationRef s)"
  proof -
    have "\<forall>p\<in>set (populationRef s). \<exists>sc. bindE (calculateFitness p (groundTruthTrajectoryRef s))
            (\<lambda>f. Inr \<lparr>params = p, fitness = f\<rparr>) = Inr sc"
      using assms(3) by fastforce
    then obtain h where h: "\<And>p. p \<in> set (populationRef s) \<Longrightarrow>
        bindE (calculateFitness p (groundTruthTrajectoryRef s))
            (\<lambda>f. Inr \<lparr>params = p, fitness = f\<rparr>) = Inr (h p)" by metis
    have "scorePopulation ?s1 = Inr (map h (populationRef s))"
      unfolding scorePopulation_def by (simp add: mapE_total[where h = h, OF h])
    then show ?thesis by simp
  qed
  then obtain scores where sc: "scorePopulation ?s1 = Inr scores"
    and len: "length scores = length (populationRef s)" by blast
  have len': "ELITISM_COUNT \<le> length (sortScores scores)"
    using assms(2) len by (simp add: length_sortScores)
  then obtain best rest where srt: "sortScores scores = best # rest"
    by (cases "sortScores scores") (simp_all add: ELITISM_COUNT_def)
  obtain np rs' where nx: "nextPopulation (sortScores scores) rs = Inr (np, rs')"
    using nextPopulation_total[OF assms(1) len'] by fastforce
  show ?thesis
    unfolding runGeneration_def Let_def sc bindE_Inr srt list.case
    using nx unfolding srt by (cases "jsGreater (fitness best) (Num (149 / 100))") simp_all
qed

lemma length_createPopulation: "length (fst (createPopulation n rs)) = n"
  by (induction n arbitrary: rs) (simp_all add: case_prod_unfold)

lemma generations_searchRun: "generations s n s' \<Longrightarrow> searchRun s \<Longrightarrow> searchRun s'"
  by (induction rule: generations.induct) (auto intro: searchRun.generation)

text \<open>
  Claim C9. Along every run of the search, from a state that \<open>initializeSearch\<close> left
  or a later one, \<open>n\<close> completed calls of \<open>runGeneration\<close> raise the generation
  counter (the ref and the reported one) by exactly \<open>n\<close>, so each call by exactly 1,
  and the reported best fitness never drops.
\<close>

theorem search_progress:
  assumes "searchRun s" and "generations s n s'"
  shows "generationRef s' = generationRef s + n \<and>
         generation (searchProgress s') = generation (searchProgress s) + n \<and>
         bestFitness (searchProgress s) \<le> bestFitness (searchProgress s')"
  using assms(2,1)
proof (induction rule: generations.induct)
  case (none s)
  then show ?case by simp
next
  case (more s n s' rs s'' rs')
  have run: "searchRun s'" by (rule generations_searchRun[OF more.hyps(1) more.prems])
  show ?case
    using more.IH[OF more.prems] runGeneration_progress[OF run more.hyps(2)] by simp
qed

lemma countFlips_total:
  assumes "isGrid FITNESS_GRID_SIZE FITNESS_GRID_SIZE g" and "isGrid FITNESS_GRID_SIZE FITNESS_GRID_SIZE prev"
  shows "\<exists>n. countFlips g prev = Inr n"
proof -
  have "\<exists>n. countFlips g prev = Inr n \<and> True"
    unfolding countFlips_def
  proof (rule foldE_total_inv[where P = "\<lambda>n. True"])
    fix y n assume y: "y \<in> set [0..<FITNESS_GRID_SIZE]"
    show "\<exists>n'. foldE (\<lambda>x flips.
                bindE (elemAt2 g (Some (int y)) (Some (int x))) (\<lambda>a.
                bindE (elemAt2 prev (Some (int y)) (Some (int x))) (\<lambda>b.
                  Inr (if a \<noteq> b then flips + 1 else flips))))
              [0..<FITNESS_GRID_SIZE] n = Inr n' \<and> True"
    proof (rule foldE_total_inv[where P = "\<lambda>n. True"])
      fix x m assume "x \<in> set [0..<FITNESS_GRID_SIZE]"
      then show "\<exists>m'. bindE (elemAt2 g (Some (int y)) (Some (int x))) (\<lambda>a.
                bindE (elemAt2 prev (Some (int y)) (Some (int x))) (\<lambda>b.
                  Inr (if a \<noteq> b then m + 1 else m))) = Inr m' \<and> True"
        using y by (simp add: elemAt2_grid[OF assms(1)] elemAt2_grid[OF assms(2)])
    qed simp
  qed simp
  then show ?thesis by simp
qed

lemma truthLoop_total:
  assumes "isGrid FITNESS_GRID_SIZE FITNESS_GRID_SIZE g" and "isGrid FITNESS_GRID_SIZE FITNESS_GRID_SIZE prev"
    and "list_all (\<lambda>st. isGrid FITNESS_GRID_SIZE FITNESS_GRID_SIZE (grid st)) traj"
  shows "\<exists>g' prev' traj'. foldE truthStep steps (g, prev, traj) = Inr (g', prev', traj') \<and>
           list_all (\<lambda>st. isGrid FITNESS_GRID_SIZE FITNESS_GRID_SIZE (grid st)) traj' \<and>
           length traj' = length traj + length steps"
  using assms
proof (induction steps arbitrary: g prev traj)
  case Nil
  then show ?case by simp
next
  case (Cons i steps)
  have N: "0 < FITNESS_GRID_SIZE" by (simp add: FITNESS_GRID_SIZE_def)
  let ?g1 = "mkGrid FITNESS_GRID_SIZE FITNESS_GRID_SIZE
       (\<lambda>y x. golRule (g ! y ! x) (golCount g FITNESS_GRID_SIZE FITNESS_GRID_SIZE y x))"
  have gol: "performGOLStep g = Inr ?g1" by (rule performGOLStep_grid[OF Cons.prems(1) N])
  have g1: "isGrid FITNESS_GRID_SIZE FITNESS_GRID_SIZE ?g1" by simp
  obtain n where n: "countFlips ?g1 prev = Inr n"
    using countFlips_total[OF g1 Cons.prems(2)] by blast
  let ?traj1 = "traj @ [\<lparr>grid = map (\<lambda>row. row) ?g1, population = gridPopulation ?g1,
                          flipsSincePrevStep = n\<rparr>]"
  have step: "truthStep i (g, prev, traj) = Inr (?g1, map (\<lambda>row. row) ?g1, ?traj1)"
    by (simp add: truthStep_def gol n)
  have t1: "list_all (\<lambda>st. isGrid FITNESS_GRID_SIZE FITNESS_GRID_SIZE (grid st)) ?traj1"
    using Cons.prems(3) g1 by simp
  have c1: "isGrid FITNESS_GRID_SIZE FITNESS_GRID_SIZE (map (\<lambda>row. row) ?g1)" using g1 by simp
  from Cons.IH[OF g1 c1 t1] show ?case by (simp add: step)
qed

lemma precomputeGroundTruth_wellFormed:
  "\<exists>traj. precomputeGroundTruth = Inr traj \<and> wellFormedTrajectory traj"
proof -
  let ?g0 = "map (\<lambda>y. map (\<lambda>x. if createSeededRandom SEED (y * FITNESS_GRID_SIZE + x) > 6 / 10
                               then 1 else 0 :: int) [0..<FITNESS_GRID_SIZE]) [0..<FITNESS_GRID_SIZE]"
  have g0: "isGrid FITNESS_GRID_SIZE FITNESS_GRID_SIZE ?g0"
    by (simp add: isGrid_def list_all_iff)
  have c0: "isGrid FITNESS_GRID_SIZE FITNESS_GRID_SIZE (map (\<lambda>row. row) ?g0)" using g0 by simp
  let ?t0 = "[\<lparr>grid = map (\<lambda>row. row) ?g0, population = gridPopulation ?g0, flipsSincePrevStep = 0\<rparr>]"
  have t0: "list_all (\<lambda>st. isGrid FITNESS_GRID_SIZE FITNESS_GRID_SIZE (grid st)) ?t0"
    using c0 by simp
  from truthLoop_total[OF g0 c0 t0, of "[0..<FITNESS_SIM_STEPS]"]
  obtain g' prev' traj' where
    loop: "foldE truthStep [0..<FITNESS_SIM_STEPS] (?g0, map (\<lambda>row. row) ?g0, ?t0) = Inr (g', prev', traj')"
    and wf: "list_all (\<lambda>st. isGrid FITNESS_GRID_SIZE FITNESS_GRID_SIZE (grid st)) traj'"
    and len: "length traj' = length ?t0 + length [0..<FITNESS_SIM_STEPS]" by blast
  have "precomputeGroundTruth = Inr traj'"
    unfolding precomputeGroundTruth_def Let_def loop by simp
  moreover have "wellFormedTrajectory traj'"
    using wf len by (simp add: wellFormedTrajectory_def)
  ultimately show ?thesis by blast
qed

theorem search_progress_witness:
  "\<exists>s0 rs0 s'.
     initializeSearch
       \<lparr>isSearching = True, searchProgress = \<lparr>generation = 0, bestFitness = 0\<rparr>,
        bestParams = None, populationRef = [], generationRef = 0,
        groundTruthTrajectoryRef = []\<rparr> (\<lambda>k. 1 / 2, 0) = Inr (s0, rs0) \<and>
     generations s0 1 s' \<and>
     generationRef s' = 1 \<and> generation (searchProgress s') = 1 \<and>
     0 \<le> bestFitness (searchProgress s')"
proof -
  let ?s00 = "\<lparr>isSearching = True, searchProgress = \<lparr>generation = 0, bestFitness = 0\<rparr>,
           bestParams = None, populationRef = [], generationRef = 0,
           groundTruthTrajectoryRef = []\<rparr>"
  let ?rs = "(\<lambda>k::nat. 1 / 2 :: real, 0::nat)"
  obtain traj where traj: "precomputeGroundTruth = Inr traj" and wf: "wellFormedTrajectory traj"
    using precomputeGroundTruth_wellFormed by blast
  define s0 where "s0 = ?s00\<lparr>generationRef := 0, groundTruthTrajectoryRef := traj,
      populationRef := fst (createPopulation POPULATION_SIZE ?rs),
      searchProgress := \<lparr>generation = 0, bestFitness = 0\<rparr>, bestParams := None\<rparr>"
  have init: "initializeSearch ?s00 ?rs = Inr (s0, snd (createPopulation POPULATION_SIZE ?rs))"
    by (simp add: initializeSearch_def traj s0_def case_prod_unfold)
  have run: "searchRun s0" by (rule searchRun.initialized[OF init])
  have pop: "length (populationRef s0) = POPULATION_SIZE"
    by (simp add: s0_def length_createPopulation)
  have fields: "generationRef s0 = 0" "generation (searchProgress s0) = 0"
    "bestFitness (searchProgress s0) = 0" "groundTruthTrajectoryRef s0 = traj"
    by (simp_all add: s0_def)
  have "\<exists>s' rs'. runGeneration s0 ?rs = Inr (s', rs')"
  proof (rule runGeneration_total)
    show "unitRandom ?rs" by (simp add: unitRandom_def)
    show "ELITISM_COUNT \<le> length (populationRef s0)"
      unfolding pop by (simp add: ELITISM_COUNT_def POPULATION_SIZE_def)
    show "\<exists>f. calculateFitness p (groundTruthTrajectoryRef s0) = Inr f" for p
      unfolding fields using calculateFitness_total[OF wf, of p] by blast
  qed
  then obtain s' rs' where step: "runGeneration s0 ?rs = Inr (s', rs')" by blast
  have gens: "generations s0 1 s'"
    using generations.more[OF generations.none step] by simp
  have "generationRef s' = 1 \<and> generation (searchProgress s') = 1 \<and>
        0 \<le> bestFitness (searchProgress s')"
    using search_progress[OF run gens] unfolding fields by simp
  then show ?thesis using init gens by blast
qed

end
